theory Spec2Isabelle
  imports Main "HOL-Library.Char_ord" "HOL-Library.List_Lexorder" "HOL-Library.Option_ord"
    "HOL-Library.Multiset"
begin

section \<open>The type graph\<close>

text \<open>
  The renderers read the type graph through the classes of \<open>Type.ts\<close>:
  \<open>PrimitiveType\<close> (with its \<open>kind\<close>), \<open>ArrayType\<close> (\<open>items\<close>), \<open>MapType\<close> (\<open>values\<close>),
  \<open>ClassType\<close> (\<open>names.combined\<close>, \<open>properties\<close>) and \<open>UnionType\<close> (\<open>names.combined\<close>,
  \<open>members\<close>). A \<open>ClassType\<close> object is a handle into a table of classes, so that
  self- and mutually-referential classes are values of the model as well; a union
  carries its combined name and its members, an ordered set, kept as a list in iteration
  order.
\<close>

datatype primitiveKind = KAny | KNull | KBool | KInteger | KDouble | KString

type_synonym classRef = nat

datatype ty =
    PrimitiveType primitiveKind
  | ArrayType ty
  | MapType ty
  | ClassType classRef
  | UnionType string "ty list"

record classInfo =
  combined :: string
  properties :: "(string \<times> ty) list"

type_synonym classTable = "classRef \<Rightarrow> classInfo"

fun members :: "ty \<Rightarrow> ty list" where
  "members (UnionType n ms) = ms"
| "members _ = []"

fun isNull :: "ty \<Rightarrow> bool" where
  "isNull (PrimitiveType KNull) = True"
| "isNull _ = False"


text \<open>
  Modelled from the spec: \<open>nullableFromUnion\<close> of \<open>Type.ts\<close>, which is not among the
  sources: "if u.members has exactly two entries and exactly one is Null, returns the
  other member; otherwise returns none".
\<close>

definition nullableFromUnion :: "ty \<Rightarrow> ty option" where
  "nullableFromUnion u =
     (if length (members u) = 2 \<and> length (filter isNull (members u)) = 1
      then (case filter (\<lambda>t. \<not> isNull t) (members u) of
              [x] \<Rightarrow> Some x
            | _ \<Rightarrow> None)
      else None)"

text \<open>
  \<open>ConvenienceRenderer.unionNeedsName\<close>: \<open>return !nullableFromUnion(u);\<close>. The result of
  \<open>nullableFromUnion\<close> is a \<open>Type\<close> object or \<open>null\<close>, and every object is truthy.
\<close>

definition unionNeedsName :: "ty \<Rightarrow> bool" where
  "unionNeedsName u = (case nullableFromUnion u of None \<Rightarrow> True | Some t \<Rightarrow> False)"

section \<open>Names and namespaces\<close>

text \<open>
  \<open>Naming.ts\<close> is not among the sources; the renderer only constructs \<open>Name\<close> and
  \<open>Namespace\<close> objects and hands them around. A \<open>Name\<close> is an object with an identity:
  the model numbers the objects in the order in which \<open>new FixedName\<close> and
  \<open>new SimpleName\<close> create them. A \<open>SimpleName\<close> remembers its raw name and its namer.
\<close>

datatype namer = NamedTypeNamer | PropertyNamer

datatype name =
    FixedName nat string
  | SimpleName nat string namer

type_synonym nsRef = nat

text \<open>
  A \<open>Namespace\<close> object, as the constructor call
  \<open>new Namespace(name, parent, forbiddenNamespaces, additionalForbidden)\<close> of
  \<open>addPropertyNameds\<close> fills it, with the members that \<open>add\<close> appends. The forbidden
  words are those \<open>keywordNamespace\<close> seeds a namespace with. Namespaces refer to each
  other by their position in the renderer's list of namespaces.
\<close>

record namespace =
  nsName :: string
  nsParent :: "nsRef option"
  forbiddenNamespaces :: "nsRef set"
  additionalForbidden :: "name set"
  forbiddenWords :: "string set"
  nsMembers :: "name list"

text \<open>
  Modelled from the spec: \<open>keywordNamespace\<close> of \<open>Naming.ts\<close>, which is not among the
  sources: "createGlobalNamespace(forbiddenWords) seeds the root scope" with the
  backend's forbidden words.
\<close>

definition keywordNamespace :: "string \<Rightarrow> string list \<Rightarrow> namespace" where
  "keywordNamespace n keywords =
     \<lparr>nsName = n, nsParent = None, forbiddenNamespaces = {}, additionalForbidden = {},
      forbiddenWords = set keywords, nsMembers = []\<rparr>"

section \<open>The state of a ConvenienceRenderer\<close>

text \<open>
  The fields of \<open>ConvenienceRenderer\<close>, together with what it reads from its base class
  \<open>Renderer\<close>: the top levels (an ordered map from name to type) and the table \<open>names\<close>
  from \<open>Name\<close> to string. The table of classes is the part of the type graph that
  \<open>ClassType\<close> handles point into. \<open>_propertyNames\<close> holds for a class the entries of
  its map from property to \<open>Name\<close>, in the order in which the map iterates.

  Modelled from the spec: the table \<open>names\<close> of \<open>Renderer.ts\<close>, which is not among the
  sources, is the result of \<open>resolve()\<close>, "final strings for every allocated Name": it
  gives every name a string.
\<close>

record renderer =
  classTable :: classTable
  topLevels :: "(string \<times> ty) list"
  names :: "name \<Rightarrow> string"
  namespaces :: "namespace list"
  nextName :: nat
  topLevelNames :: "string \<rightharpoonup> name"
  classAndUnionNames :: "ty \<rightharpoonup> name"
  propertyNames :: "ty \<rightharpoonup> (string \<times> name) list"
  namedTypes :: "ty list"
  namedClasses :: "ty list"
  namedUnions :: "ty list"

text \<open>The abstract and overridable members of \<open>ConvenienceRenderer\<close>, one record per backend.\<close>

record backend =
  forbiddenNamesForGlobalNamespace :: "string list"
  forbiddenForProperties :: "ty \<Rightarrow> name \<Rightarrow> name list \<times> nsRef list"
  topLevelNameStyle :: "string \<Rightarrow> string"
  namedTypeNamer :: "string \<Rightarrow> string"
  propertyNamer :: "string \<Rightarrow> string"
  namedTypeToNameForTopLevel :: "ty \<Rightarrow> ty option"

text \<open>
  The faults: the strings the sources throw ("Named type does not exist.", "Variant not
  needed for less than two types.", "Unknown type", "Named type that's neither a class
  nor union"), and the \<open>TypeError\<close> of a method call on \<open>undefined\<close>.
\<close>

datatype error =
    NamedTypeDoesNotExist
  | VariantNotNeeded
  | UnknownType
  | NeitherClassNorUnion
  | TypeError

text \<open>\<open>this.globalNamespace\<close> is the first namespace the renderer creates.\<close>

definition globalNamespace :: nsRef where
  "globalNamespace = 0"

text \<open>\<open>ns.add(name)\<close> appends the name to the members of the namespace and returns it.\<close>

definition add :: "nsRef \<Rightarrow> name \<Rightarrow> renderer \<Rightarrow> renderer" where
  "add ns n r =
     (if ns < length (namespaces r)
      then r\<lparr>namespaces := (namespaces r)
                 [ns := (namespaces r ! ns)\<lparr>nsMembers := nsMembers (namespaces r ! ns) @ [n]\<rparr>]\<rparr>
      else r)"

text \<open>\<open>c.names.combined\<close> and \<open>c.properties\<close> of a named type.\<close>

fun combinedName :: "classTable \<Rightarrow> ty \<Rightarrow> string" where
  "combinedName tbl (ClassType c) = combined (tbl c)"
| "combinedName tbl (UnionType n ms) = n"
| "combinedName tbl _ = []"

fun propertiesOf :: "classTable \<Rightarrow> ty \<Rightarrow> (string \<times> ty) list" where
  "propertiesOf tbl (ClassType c) = properties (tbl c)"
| "propertiesOf tbl _ = []"

text \<open>
  Modelled from the spec: \<open>isNamedType\<close> of \<open>Type.ts\<close>, which is not among the sources:
  "NamedType = Class | Union".
\<close>

fun isClass :: "ty \<Rightarrow> bool" where
  "isClass (ClassType c) = True"
| "isClass _ = False"

fun isUnion :: "ty \<Rightarrow> bool" where
  "isUnion (UnionType n ms) = True"
| "isUnion _ = False"

definition isNamedType :: "ty \<Rightarrow> bool" where
  "isNamedType t = (isClass t \<or> isUnion t)"

text \<open>
  \<open>toOrderedSet()\<close> of Immutable: the elements in iteration order, each kept where it
  occurs first.
\<close>

definition toOrderedSet :: "'a list \<Rightarrow> 'a list" where
  "toOrderedSet xs = rev (remdups (rev xs))"

subsection \<open>The naming pass\<close>

text \<open>\<open>topLevelDependencyNames\<close> returns no names, and no renderer of the sources overrides it.\<close>

definition topLevelDependencyNames :: "name \<Rightarrow> name list" where
  "topLevelDependencyNames topLevelName = []"

definition nameForTopLevel :: "backend \<Rightarrow> ty \<Rightarrow> string \<Rightarrow> renderer \<Rightarrow> name \<times> renderer" where
  "nameForTopLevel b t n r =
     (let maybeNamedType = namedTypeToNameForTopLevel b t;
          styledName = (case maybeNamedType of
                          Some nt \<Rightarrow> namedTypeNamer b n
                        | None \<Rightarrow> topLevelNameStyle b n);
          named = FixedName (nextName r) styledName;
          r1 = add globalNamespace named (r\<lparr>nextName := Suc (nextName r)\<rparr>);
          r2 = fold (add globalNamespace) (topLevelDependencyNames named) r1;
          r3 = (case maybeNamedType of
                  Some nt \<Rightarrow> r2\<lparr>classAndUnionNames := (classAndUnionNames r2)(nt \<mapsto> named)\<rparr>
                | None \<Rightarrow> r2)
      in (named, r3))"

definition addClassOrUnionNamed :: "ty \<Rightarrow> renderer \<Rightarrow> name \<times> renderer" where
  "addClassOrUnionNamed t r =
     (case classAndUnionNames r t of
        Some named \<Rightarrow> (named, r)
      | None \<Rightarrow>
          (let named = SimpleName (nextName r) (combinedName (classTable r) t) NamedTypeNamer;
               r1 = add globalNamespace named (r\<lparr>nextName := Suc (nextName r)\<rparr>)
           in (named, r1\<lparr>classAndUnionNames := (classAndUnionNames r1)(t \<mapsto> named)\<rparr>)))"

text \<open>
  The loop of \<open>addPropertyNameds\<close> over \<open>c.properties\<close>: one \<open>SimpleName\<close> per property,
  added to the namespace of the class. The names are stored in the order of the
  properties; the \<open>Map\<close> that \<open>toMap()\<close> builds in the source iterates in that order as long
  as it has at most eight entries, and in the order of the hashes of its keys beyond.
\<close>

fun addPropertyNames :: "nsRef \<Rightarrow> (string \<times> ty) list \<Rightarrow> renderer \<Rightarrow> (string \<times> name) list \<times> renderer" where
  "addPropertyNames ns [] r = ([], r)"
| "addPropertyNames ns ((n, t) # ps) r =
     (let named = SimpleName (nextName r) n PropertyNamer;
          r1 = add ns named (r\<lparr>nextName := Suc (nextName r)\<rparr>);
          (rest, r2) = addPropertyNames ns ps r1
      in ((n, named) # rest, r2))"

definition addPropertyNameds :: "backend \<Rightarrow> ty \<Rightarrow> name \<Rightarrow> renderer \<Rightarrow> renderer" where
  "addPropertyNameds b c classNamed r =
     (let (forbiddenNames, forbiddenNamespace) = forbiddenForProperties b c classNamed;
          ns = length (namespaces r);
          r1 = r\<lparr>namespaces := namespaces r @
                  [\<lparr>nsName = combinedName (classTable r) c, nsParent = Some globalNamespace,
                    forbiddenNamespaces = set forbiddenNamespace,
                    additionalForbidden = set forbiddenNames,
                    forbiddenWords = {}, nsMembers = []\<rparr>]\<rparr>;
          (ns_names, r2) = addPropertyNames ns (propertiesOf (classTable r) c) r1
      in r2\<lparr>propertyNames := (propertyNames r2)(c \<mapsto> ns_names)\<rparr>)"

text \<open>\<open>this.topLevels.map(this.nameForTopLevel)\<close>, in the order of the top levels.\<close>

fun nameTopLevels :: "backend \<Rightarrow> (string \<times> ty) list \<Rightarrow> renderer \<Rightarrow> (string \<times> name) list \<times> renderer" where
  "nameTopLevels b [] r = ([], r)"
| "nameTopLevels b ((n, t) # tls) r =
     (let (named, r1) = nameForTopLevel b t n r;
          (rest, r2) = nameTopLevels b tls r1
      in ((n, named) # rest, r2))"

text \<open>The two \<open>forEach\<close> loops of \<open>setUpNaming\<close>.\<close>

definition nameClass :: "backend \<Rightarrow> ty \<Rightarrow> renderer \<Rightarrow> renderer" where
  "nameClass b c r = (let (named, r1) = addClassOrUnionNamed c r in addPropertyNameds b c named r1)"

definition nameUnion :: "ty \<Rightarrow> renderer \<Rightarrow> renderer" where
  "nameUnion u r = snd (addClassOrUnionNamed u r)"

text \<open>
  \<open>setUpNaming\<close>. The result of \<open>allClassesAndUnions(this.topLevels)\<close>, a function of
  \<open>Type.ts\<close>, is the argument \<open>classes\<close>, \<open>unions\<close>. The model returns the renderer with
  its fields assigned; the list the source returns holds the global namespace alone.
\<close>

definition setUpNaming :: "backend \<Rightarrow> ty list \<Rightarrow> ty list \<Rightarrow> renderer \<Rightarrow> renderer" where
  "setUpNaming b classes unions r =
     (let r0 = r\<lparr>namespaces := [keywordNamespace ''global'' (forbiddenNamesForGlobalNamespace b)]\<rparr>;
          named_unions = toOrderedSet (filter unionNeedsName unions);
          r1 = r0\<lparr>classAndUnionNames := Map.empty, propertyNames := Map.empty\<rparr>;
          (tl_names, r2) = nameTopLevels b (topLevels r1) r1;
          r3 = r2\<lparr>topLevelNames := map_of tl_names\<rparr>;
          r4 = fold (nameClass b) classes r3
      in fold nameUnion named_unions r4)"

definition nameForNamedType :: "renderer \<Rightarrow> ty \<Rightarrow> error + name" where
  "nameForNamedType r t =
     (case classAndUnionNames r t of
        None \<Rightarrow> Inl NamedTypeDoesNotExist
      | Some named \<Rightarrow> Inr named)"

text \<open>
  A renderer as its constructor leaves it: the top levels, and nothing named. The source
  leaves \<open>_classAndUnionNames\<close> and \<open>_propertyNames\<close> undefined until \<open>setUpNaming\<close> assigns
  them, so a request before the naming pass is a \<open>TypeError\<close> there; the model starts
  from empty maps, and the naming pass is applied before anything is asked.
\<close>

definition newRenderer :: "classTable \<Rightarrow> (string \<times> ty) list \<Rightarrow> renderer" where
  "newRenderer tbl tls =
     \<lparr>classTable = tbl, topLevels = tls, names = (\<lambda>n. []), namespaces = [], nextName = 0,
      topLevelNames = Map.empty, classAndUnionNames = Map.empty, propertyNames = Map.empty,
      namedTypes = [], namedClasses = [], namedUnions = []\<rparr>"

text \<open>
  The C++ backend (\<open>CPlusPlusRenderer\<close>). Its name style \<open>cppNameStyle\<close> is built from
  functions of \<open>Support.ts\<close>, which is not among the sources, and is a parameter here;
  \<open>cppKeywords\<close> is the list \<open>keywords\<close> of the source.
\<close>

definition cppKeywords :: "string list" where
  "cppKeywords =
     [''alignas'', ''alignof'', ''and'', ''and_eq'', ''asm'', ''atomic_cancel'',
      ''atomic_commit'', ''atomic_noexcept'', ''auto'', ''bitand'', ''bitor'', ''bool'',
      ''break'', ''case'', ''catch'', ''char'', ''char16_t'', ''char32_t'', ''class'',
      ''compl'', ''concept'', ''const'', ''constexpr'', ''const_cast'', ''continue'',
      ''co_await'', ''co_return'', ''co_yield'', ''decltype'', ''default'', ''delete'', ''do'',
      ''double'', ''dynamic_cast'', ''else'', ''enum'', ''explicit'', ''export'', ''extern'',
      ''false'', ''float'', ''for'', ''friend'', ''goto'', ''if'', ''import'', ''inline'',
      ''int'', ''long'', ''module'', ''mutable'', ''namespace'', ''new'', ''noexcept'',
      ''not'', ''not_eq'', ''nullptr'', ''operator'', ''or'', ''or_eq'', ''private'',
      ''protected'', ''public'', ''register'', ''reinterpret_cast'', ''requires'', ''return'',
      ''short'', ''signed'', ''sizeof'', ''static'', ''static_assert'', ''static_cast'',
      ''struct'', ''switch'', ''synchronized'', ''template'', ''this'', ''thread_local'',
      ''throw'', ''true'', ''try'', ''typedef'', ''typeid'', ''typename'', ''union'',
      ''unsigned'', ''using'', ''virtual'', ''void'', ''volatile'', ''wchar_t'', ''while'',
      ''xor'', ''xor_eq'', ''override'', ''final'', ''transaction_safe'',
      ''transaction_safe_dynamic'']"

definition cppNamedTypeToNameForTopLevel :: "ty \<Rightarrow> ty option" where
  "cppNamedTypeToNameForTopLevel t = (if isNamedType t then Some t else None)"

definition cppBackend :: "(string \<Rightarrow> string) \<Rightarrow> backend" where
  "cppBackend cppNameStyle =
     \<lparr>forbiddenNamesForGlobalNamespace = cppKeywords,
      forbiddenForProperties = (\<lambda>c classNamed. ([], [globalNamespace])),
      topLevelNameStyle = cppNameStyle,
      namedTypeNamer = cppNameStyle,
      propertyNamer = cppNameStyle,
      namedTypeToNameForTopLevel = cppNamedTypeToNameForTopLevel\<rparr>"

section \<open>The emission iterators\<close>

text \<open>
  What a renderer emits: a sequence of lines and blank lines. The type of a line is left
  open; the C++ backend emits source lines, a backend that only records with which
  arguments it is called emits one record per call.
\<close>

datatype 'o emitted = EmitNewline | Emit 'o

datatype blankLineLocations = NoBlankLines | Leading | Interposing | LeadingAndInterposing

text \<open>
  Modelled from the spec: \<open>forEachWithBlankLines\<close> of \<open>Renderer.ts\<close>, which is not among
  the sources. The blank-line policy is one of none, leading, interposing,
  leading-and-interposing and controls "whether a separator is emitted before the first
  item and/or between consecutive items". A fault of the emitter ends the iteration.
\<close>

fun blankLineBefore :: "blankLineLocations \<Rightarrow> bool \<Rightarrow> bool" where
  "blankLineBefore NoBlankLines onFirst = False"
| "blankLineBefore Leading onFirst = onFirst"
| "blankLineBefore Interposing onFirst = (\<not> onFirst)"
| "blankLineBefore LeadingAndInterposing onFirst = True"

fun forEachFrom :: "bool \<Rightarrow> 'a list \<Rightarrow> blankLineLocations \<Rightarrow> ('a \<Rightarrow> error + 'o emitted list)
      \<Rightarrow> error + 'o emitted list" where
  "forEachFrom onFirst [] blankLocations emitter = Inr []"
| "forEachFrom onFirst (x # xs) blankLocations emitter =
     (case emitter x of
        Inl e \<Rightarrow> Inl e
      | Inr out \<Rightarrow>
          (case forEachFrom False xs blankLocations emitter of
             Inl e \<Rightarrow> Inl e
           | Inr rest \<Rightarrow>
               Inr ((if blankLineBefore blankLocations onFirst then [EmitNewline] else [])
                    @ out @ rest)))"

definition forEachWithBlankLines :: "'a list \<Rightarrow> blankLineLocations \<Rightarrow> ('a \<Rightarrow> error + 'o emitted list)
      \<Rightarrow> error + 'o emitted list" where
  "forEachWithBlankLines iterable blankLocations emitter =
     forEachFrom True iterable blankLocations emitter"

text \<open>
  \<open>forEachTopLevel\<close>: the callback gets the type and \<open>this._topLevelNames.get(name)\<close>, which
  is \<open>undefined\<close> (here \<open>None\<close>) for a top level without a name.
\<close>

definition forEachTopLevel :: "renderer \<Rightarrow> blankLineLocations
      \<Rightarrow> (ty \<Rightarrow> name option \<Rightarrow> error + 'o emitted list) \<Rightarrow> error + 'o emitted list" where
  "forEachTopLevel r blankLocations f =
     forEachWithBlankLines (topLevels r) blankLocations (\<lambda>(n, t). f t (topLevelNames r n))"

text \<open>
  \<open>callForClass\<close>: \<open>this._propertyNames.get(c)\<close> is \<open>undefined\<close> for a class without property
  names, and the call of \<open>sortBy\<close> on it a \<open>TypeError\<close>. \<open>sortBy\<close> of Immutable is a stable
  sort by the key, here the resolved name, a string compared as JavaScript compares
  strings: position by position, a proper prefix first.
\<close>

definition callForClass :: "renderer \<Rightarrow> ty
      \<Rightarrow> (ty \<Rightarrow> name option \<Rightarrow> (string \<times> name) list \<Rightarrow> error + 'o emitted list)
      \<Rightarrow> error + 'o emitted list" where
  "callForClass r c f =
     (case propertyNames r c of
        None \<Rightarrow> Inl TypeError
      | Some property_names \<Rightarrow>
          (let sortedPropertyNames = sort_key (\<lambda>(k, n). names r n) property_names
           in f c (classAndUnionNames r c) sortedPropertyNames))"

definition forEachClass :: "renderer \<Rightarrow> blankLineLocations
      \<Rightarrow> (ty \<Rightarrow> name option \<Rightarrow> (string \<times> name) list \<Rightarrow> error + 'o emitted list)
      \<Rightarrow> error + 'o emitted list" where
  "forEachClass r blankLocations f =
     forEachWithBlankLines (namedClasses r) blankLocations (\<lambda>c. callForClass r c f)"

definition callForUnion :: "renderer \<Rightarrow> ty
      \<Rightarrow> (ty \<Rightarrow> name option \<Rightarrow> error + 'o emitted list) \<Rightarrow> error + 'o emitted list" where
  "callForUnion r u f = f u (classAndUnionNames r u)"

definition forEachUnion :: "renderer \<Rightarrow> blankLineLocations
      \<Rightarrow> (ty \<Rightarrow> name option \<Rightarrow> error + 'o emitted list) \<Rightarrow> error + 'o emitted list" where
  "forEachUnion r blankLocations f =
     forEachWithBlankLines (namedUnions r) blankLocations (\<lambda>u. callForUnion r u f)"

definition forEachNamedType :: "renderer \<Rightarrow> blankLineLocations \<Rightarrow> bool
      \<Rightarrow> (ty \<Rightarrow> name option \<Rightarrow> (string \<times> name) list \<Rightarrow> error + 'o emitted list)
      \<Rightarrow> (ty \<Rightarrow> name option \<Rightarrow> error + 'o emitted list)
      \<Rightarrow> error + 'o emitted list" where
  "forEachNamedType r blankLocations leavesFirst classFunc unionFunc =
     (let iterable = (if leavesFirst then rev (namedTypes r) else namedTypes r)
      in forEachWithBlankLines iterable blankLocations
           (\<lambda>t. if isClass t then callForClass r t classFunc
                else if isUnion t then callForUnion r t unionFunc
                else Inl NeitherClassNorUnion))"

text \<open>
  Modelled from the spec: \<open>splitClassesAndUnions\<close> of \<open>Type.ts\<close>, which is not among the
  sources: "split(orderedSet) gives (classesInOrder, unionsInOrder) preserving relative
  order".
\<close>

definition splitClassesAndUnions :: "ty list \<Rightarrow> ty list \<times> ty list" where
  "splitClassesAndUnions ts = (filter isClass ts, filter isUnion ts)"

text \<open>
  \<open>emitSource\<close>, up to the call of \<open>emitSourceStructure\<close>. The result of
  \<open>allNamedTypes(this.topLevels, this.childrenOfType)\<close>, a function of \<open>Type.ts\<close>, is the
  argument \<open>types\<close>.
\<close>

definition emitSource :: "ty list \<Rightarrow> renderer \<Rightarrow> renderer" where
  "emitSource types r =
     (let named = toOrderedSet (filter (\<lambda>t. \<not> isUnion t \<or> unionNeedsName t) types);
          (classes, unions) = splitClassesAndUnions named
      in r\<lparr>namedTypes := named, namedClasses := classes, namedUnions := unions\<rparr>)"

text \<open>
  A backend that records its calls: the arguments of each call of a callback, in the
  order of the calls.
\<close>

datatype callRecord =
    TopLevelCall ty "name option"
  | ClassCall ty "name option" "(string \<times> name) list"
  | UnionCall ty "name option"

definition recordTopLevel :: "ty \<Rightarrow> name option \<Rightarrow> error + callRecord emitted list" where
  "recordTopLevel t n = Inr [Emit (TopLevelCall t n)]"

definition recordClass :: "ty \<Rightarrow> name option \<Rightarrow> (string \<times> name) list \<Rightarrow> error + callRecord emitted list" where
  "recordClass c n ps = Inr [Emit (ClassCall c n ps)]"

definition recordUnion :: "ty \<Rightarrow> name option \<Rightarrow> error + callRecord emitted list" where
  "recordUnion u n = Inr [Emit (UnionCall u n)]"

text \<open>The calls among what was emitted, and the calls for classes among them.\<close>

fun calls :: "'o emitted list \<Rightarrow> 'o list" where
  "calls [] = []"
| "calls (EmitNewline # es) = calls es"
| "calls (Emit x # es) = x # calls es"

fun isClassCall :: "callRecord \<Rightarrow> bool" where
  "isClassCall (ClassCall c n ps) = True"
| "isClassCall _ = False"

section \<open>The dependency traversal's children\<close>




section \<open>Field names for union members\<close>



section \<open>The C++ renderer\<close>

text \<open>
  A \<open>Sourcelike\<close> is a string, a \<open>Name\<close>, an array of \<open>Sourcelike\<close>s or an annotated
  \<open>Sourcelike\<close>. \<open>Source.ts\<close> and \<open>Annotation.ts\<close> are not among the sources;
  \<open>maybeAnnotated\<close> annotates when asked to.
\<close>

datatype annotation = AnyTypeIssueAnnotation | NullTypeIssueAnnotation

datatype sourcelike =
    Str string
  | NameRef name
  | Seq "sourcelike list"
  | Annotated annotation sourcelike

definition maybeAnnotated :: "bool \<Rightarrow> annotation \<Rightarrow> sourcelike \<Rightarrow> sourcelike" where
  "maybeAnnotated doAnnotate a sl = (if doAnnotate then Annotated a sl else sl)"







text \<open>The nullable of a union is one of its members: the recursion of \<open>cppType\<close> ends.\<close>

lemma nullableFromUnion_size:
  assumes "nullableFromUnion (UnionType n ms) = Some x"
  shows "size x < size (UnionType n ms)"
proof -
  from assms have "filter (\<lambda>t. \<not> isNull t) ms = [x]"
    by (auto simp: nullableFromUnion_def split: if_splits list.splits)
  then have "x \<in> set (filter (\<lambda>t. \<not> isNull t) ms)" by simp
  then have "x \<in> set ms" by simp
  then have "size x \<le> size_list size ms"
    by (simp add: size_list_estimation')
  then show ?thesis by simp
qed

function cppType :: "renderer \<Rightarrow> ty \<Rightarrow> bool \<Rightarrow> error + sourcelike" where
  "cppType r (PrimitiveType k) withIssues =
     Inr (case k of
            KAny \<Rightarrow> maybeAnnotated withIssues AnyTypeIssueAnnotation (Str ''json'')
          | KNull \<Rightarrow> maybeAnnotated withIssues NullTypeIssueAnnotation (Str ''json'')
          | KBool \<Rightarrow> Str ''bool''
          | KInteger \<Rightarrow> Str ''int64_t''
          | KDouble \<Rightarrow> Str ''double''
          | KString \<Rightarrow> Str ''std::string'')"
| "cppType r (ArrayType items) withIssues =
     (case cppType r items withIssues of
        Inl e \<Rightarrow> Inl e
      | Inr s \<Rightarrow> Inr (Seq [Str ''std::vector<'', s, Str ''>'']))"
| "cppType r (ClassType c) withIssues =
     (case nameForNamedType r (ClassType c) of
        Inl e \<Rightarrow> Inl e
      | Inr n \<Rightarrow> Inr (NameRef n))"
| "cppType r (MapType vals) withIssues =
     (case cppType r vals withIssues of
        Inl e \<Rightarrow> Inl e
      | Inr s \<Rightarrow> Inr (Seq [Str ''std::map<std::string, '', s, Str ''>'']))"
| "cppType r (UnionType n ms) withIssues =
     (case nullableFromUnion (UnionType n ms) of
        None \<Rightarrow>
          (case nameForNamedType r (UnionType n ms) of
             Inl e \<Rightarrow> Inl e
           | Inr nm \<Rightarrow> Inr (NameRef nm))
      | Some nullable \<Rightarrow>
          (case cppType r nullable withIssues of
             Inl e \<Rightarrow> Inl e
           | Inr s \<Rightarrow> Inr (Seq [Str ''boost::optional<'', s, Str ''>''])))"
  by pat_completeness auto
termination
  by (relation "measure (\<lambda>(r, t, w). size t)") (auto dest: nullableFromUnion_size)













section \<open>What the theorems speak about\<close>

text \<open>
  The named types that \<open>setUpNaming\<close> registers: the named types the backend takes for
  top levels, every class, and every union that needs a name.
\<close>

definition registered :: "backend \<Rightarrow> (string \<times> ty) list \<Rightarrow> ty list \<Rightarrow> ty list \<Rightarrow> ty set" where
  "registered b tls classes unions =
     (\<Union>p \<in> set tls. set_option (namedTypeToNameForTopLevel b (snd p)))
     \<union> set classes \<union> {u \<in> set unions. unionNeedsName u}"

text \<open>
  The call that \<open>forEachNamedType\<close> makes for a named type that is a class with property
  names, or a union.
\<close>

definition recordOf :: "renderer \<Rightarrow> ty \<Rightarrow> callRecord" where
  "recordOf r t =
     (if isClass t
      then ClassCall t (classAndUnionNames r t)
             (sort_key (\<lambda>(k, n). names r n) (case propertyNames r t of Some pn \<Rightarrow> pn | None \<Rightarrow> []))
      else UnionCall t (classAndUnionNames r t))"


text \<open>The list \<open>tys\<close> holds the C++ types of the types \<open>ts\<close>, position by position.\<close>

definition rendersAs :: "renderer \<Rightarrow> ty list \<Rightarrow> sourcelike list \<Rightarrow> bool" where
  "rendersAs r ts tys \<longleftrightarrow> list_all2 (\<lambda>t s. cppType r t False = Inr s) ts tys"






subsection \<open>An example graph\<close>

text \<open>
  The top level \<open>Person\<close> is a class with the properties \<open>name\<close>, \<open>age\<close>, \<open>value\<close> (an integer
  or a string), \<open>home\<close> (the class \<open>Address\<close>) and \<open>nick\<close> (a string or null). The names
  are resolved to their raw strings.
\<close>

definition valueUnion :: ty where
  "valueUnion = UnionType ''value'' [PrimitiveType KInteger, PrimitiveType KString]"

definition nickUnion :: ty where
  "nickUnion = UnionType ''nick'' [PrimitiveType KNull, PrimitiveType KString]"

definition exampleTable :: classTable where
  "exampleTable c =
     (if c = 0
      then \<lparr>combined = ''Person'',
            properties = [(''name'', PrimitiveType KString), (''age'', PrimitiveType KInteger),
                          (''value'', valueUnion), (''home'', ClassType 1), (''nick'', nickUnion)]\<rparr>
      else \<lparr>combined = ''Address'', properties = [(''street'', PrimitiveType KString)]\<rparr>)"

fun rawName :: "name \<Rightarrow> string" where
  "rawName (FixedName i s) = s"
| "rawName (SimpleName i s k) = s"

definition exampleRenderer :: renderer where
  "exampleRenderer =
     (emitSource [ClassType 0, valueUnion, ClassType 1, nickUnion]
        (setUpNaming (cppBackend id) [ClassType 0, ClassType 1] [valueUnion, nickUnion]
           (newRenderer exampleTable [(''Person'', ClassType 0)])))
     \<lparr>names := rawName\<rparr>"

subsection \<open>What a namespace forbids\<close>

text \<open>
  Modelled from the spec: what a namespace forbids (\<open>Naming.ts\<close> is not among the
  sources). A namespace holds "a forbidden-word set (own plus inherited from designated
  parent/sibling namespaces) and the set of Names allocated in it"; the namespace of a
  class forbids "the union of the supplied extra names/namespaces with everything
  forbidden in the global namespace (so a property can never collide with any type
  name)". The names a namespace forbids by itself are its additional forbidden names and
  the names allocated in its forbidden namespaces; a child forbids besides the names
  allocated in its parent, and the names and the words its parent forbids. The
  namespaces of a renderer are the global namespace and its children, so one step to
  the parent is all there is.
\<close>

definition ownForbiddenNames :: "namespace list \<Rightarrow> namespace \<Rightarrow> name set" where
  "ownForbiddenNames nss ns =
     additionalForbidden ns
     \<union> (\<Union>k \<in> forbiddenNamespaces ns. if k < length nss then set (nsMembers (nss ! k)) else {})"

definition parentNamespace :: "namespace list \<Rightarrow> namespace \<Rightarrow> namespace option" where
  "parentNamespace nss ns =
     (case nsParent ns of
        None \<Rightarrow> None
      | Some p \<Rightarrow> if p < length nss then Some (nss ! p) else None)"

definition forbiddenNames :: "namespace list \<Rightarrow> namespace \<Rightarrow> name set" where
  "forbiddenNames nss ns =
     ownForbiddenNames nss ns
     \<union> (case parentNamespace nss ns of
          None \<Rightarrow> {}
        | Some p \<Rightarrow> set (nsMembers p) \<union> ownForbiddenNames nss p)"

definition forbiddenWordsIn :: "namespace list \<Rightarrow> namespace \<Rightarrow> string set" where
  "forbiddenWordsIn nss ns =
     forbiddenWords ns
     \<union> (case parentNamespace nss ns of None \<Rightarrow> {} | Some p \<Rightarrow> forbiddenWords p)"

text \<open>
  Modelled from the spec: the uniqueness that \<open>resolve()\<close> of \<open>Naming.ts\<close> owes: "for
  every Namespace N, no two Names resolved in N, or in a namespace whose forbidden set
  includes N's allocations, resolve to equal strings; no resolved string equals a
  forbidden word of its namespace".
\<close>

definition uniquelyResolved :: "renderer \<Rightarrow> bool" where
  "uniquelyResolved r \<longleftrightarrow>
     (\<forall>ns \<in> set (namespaces r). \<forall>m \<in> set (nsMembers ns).
        names r m \<notin> forbiddenWordsIn (namespaces r) ns
        \<and> (\<forall>m' \<in> set (nsMembers ns) \<union> forbiddenNames (namespaces r) ns.
              m' \<noteq> m \<longrightarrow> names r m' \<noteq> names r m))"

text \<open>
  The \<open>CPlusPlusRenderer\<close> of \<open>src-ts/Language/CPlusPlus.ts\<close> overrides neither
  \<open>forbiddenNamesForGlobalNamespace\<close> nor \<open>forbiddenForProperties\<close>: it has the defaults of
  \<open>ConvenienceRenderer\<close>, no forbidden names and \<open>{ names: [], namespaces: [] }\<close>.
\<close>

definition defaultBackend :: "(string \<Rightarrow> string) \<Rightarrow> backend" where
  "defaultBackend cppNameStyle =
     \<lparr>forbiddenNamesForGlobalNamespace = [],
      forbiddenForProperties = (\<lambda>c classNamed. ([], [])),
      topLevelNameStyle = cppNameStyle,
      namedTypeNamer = cppNameStyle,
      propertyNamer = cppNameStyle,
      namedTypeToNameForTopLevel = cppNamedTypeToNameForTopLevel\<rparr>"

text \<open>
  A top level \<open>Person\<close>, a class whose one property is called \<open>Person\<close> as well, after the
  naming pass; and two ways to resolve the names, to the raw strings, or with an
  underscore after the name of a property.
\<close>

definition personNaming :: "backend \<Rightarrow> renderer" where
  "personNaming b =
     setUpNaming b [ClassType 0] []
       (newRenderer (\<lambda>c. \<lparr>combined = ''Person'', properties = [(''Person'', PrimitiveType KString)]\<rparr>)
          [(''Person'', ClassType 0)])"

fun underscoredName :: "name \<Rightarrow> string" where
  "underscoredName (FixedName i s) = s"
| "underscoredName (SimpleName i s NamedTypeNamer) = s"
| "underscoredName (SimpleName i s PropertyNamer) = s @ ''_''"

fun isPropertyName :: "name \<Rightarrow> bool" where
  "isPropertyName (SimpleName i n PropertyNamer) = True"
| "isPropertyName _ = False"

definition addMembers :: "nsRef \<Rightarrow> name list \<Rightarrow> namespace list \<Rightarrow> namespace list" where
  "addMembers k xs nss = nss[k := (nss ! k)\<lparr>nsMembers := nsMembers (nss ! k) @ xs\<rparr>]"

text \<open>
  What the naming pass keeps true of the namespaces. The global namespace is the one
  \<open>keywordNamespace\<close> seeded with the backend's forbidden words; its members are no names
  of properties, and the name of every named type is among them.
\<close>

definition globalInvariant :: "backend \<Rightarrow> renderer \<Rightarrow> bool" where
  "globalInvariant b r \<longleftrightarrow>
     namespaces r \<noteq> []
     \<and> nsParent (namespaces r ! 0) = None
     \<and> forbiddenNamespaces (namespaces r ! 0) = {}
     \<and> additionalForbidden (namespaces r ! 0) = {}
     \<and> forbiddenWords (namespaces r ! 0) = set (forbiddenNamesForGlobalNamespace b)
     \<and> (\<forall>m \<in> set (nsMembers (namespaces r ! 0)). \<not> isPropertyName m)
     \<and> ran (classAndUnionNames r) \<subseteq> set (nsMembers (namespaces r ! 0))"

text \<open>
  The namespace \<open>i\<close> is the one \<open>addPropertyNameds\<close> created for the class \<open>c\<close> with the
  name \<open>named\<close>: a child of the global namespace that carries the name of the class,
  holds the names \<open>pn\<close> of its properties and was built from what
  \<open>forbiddenForProperties\<close> supplies for the class and its name.
\<close>

definition propertyNamespace :: "backend \<Rightarrow> renderer \<Rightarrow> ty \<Rightarrow> (string \<times> name) list \<Rightarrow> name \<Rightarrow> nsRef \<Rightarrow> bool" where
  "propertyNamespace b r c pn named i \<longleftrightarrow>
     0 < i \<and> i < length (namespaces r)
     \<and> nsName (namespaces r ! i) = combinedName (classTable r) c
     \<and> nsMembers (namespaces r ! i) = map snd pn
     \<and> nsParent (namespaces r ! i) = Some globalNamespace
     \<and> forbiddenNamespaces (namespaces r ! i) = set (snd (forbiddenForProperties b c named))
     \<and> additionalForbidden (namespaces r ! i) = set (fst (forbiddenForProperties b c named))
     \<and> forbiddenWords (namespaces r ! i) = {}"

definition namingInvariant :: "backend \<Rightarrow> renderer \<Rightarrow> bool" where
  "namingInvariant b r \<longleftrightarrow>
     globalInvariant b r
     \<and> (\<forall>c pn. propertyNames r c = Some pn \<longrightarrow>
           (\<forall>n \<in> snd ` set pn. isPropertyName n)
           \<and> (\<exists>named i. classAndUnionNames r c = Some named \<and> propertyNamespace b r c pn named i))"

section \<open>The nullable shortcut\<close>

lemma nullableFromUnion_Some_iff:
  "nullableFromUnion (UnionType n ms) = Some x
     \<longleftrightarrow> \<not> isNull x \<and> (ms = [PrimitiveType KNull, x] \<or> ms = [x, PrimitiveType KNull])"
proof
  assume h: "nullableFromUnion (UnionType n ms) = Some x"
  then have len: "length ms = 2" and one: "length (filter isNull ms) = 1"
    by (auto simp: nullableFromUnion_def split: if_splits)
  from len obtain a b where ms: "ms = [a, b]"
    by (cases ms; cases "tl ms") auto
  from h one ms show "\<not> isNull x \<and> (ms = [PrimitiveType KNull, x] \<or> ms = [x, PrimitiveType KNull])"
    by (auto simp: nullableFromUnion_def split: if_splits elim: isNull.elims)
next
  assume "\<not> isNull x \<and> (ms = [PrimitiveType KNull, x] \<or> ms = [x, PrimitiveType KNull])"
  then show "nullableFromUnion (UnionType n ms) = Some x"
    by (auto simp: nullableFromUnion_def)
qed

lemma isNull_iff: "isNull t \<longleftrightarrow> t = PrimitiveType KNull"
  by (cases t rule: isNull.cases) auto

lemma two_element_set:
  assumes "distinct ms" and "set ms = {a, b}" and "a \<noteq> b"
  shows "ms = [a, b] \<or> ms = [b, a]"
proof -
  from assms have "length ms = 2"
    by (metis card_2_iff distinct_card)
  then obtain c d where ms: "ms = [c, d]"
    by (cases ms; cases "tl ms") auto
  with assms show ?thesis by (auto simp: doubleton_eq_iff)
qed

text \<open>
  C1. \<open>unionNeedsName u\<close> is true exactly when \<open>nullableFromUnion u\<close> is none. For a
  union whose members (an ordered set, so without repetition) are exactly \<open>Null\<close> and one
  other type \<open>X\<close>, \<open>unionNeedsName\<close> is false and \<open>nullableFromUnion\<close> returns \<open>X\<close>; for every
  other member set \<open>nullableFromUnion\<close> returns none.
\<close>

theorem unionNeedsName_iff_no_nullable:
  assumes "distinct ms"
  shows "(unionNeedsName (UnionType n ms) \<longleftrightarrow> nullableFromUnion (UnionType n ms) = None)
       \<and> (nullableFromUnion (UnionType n ms) = Some x
            \<longleftrightarrow> x \<noteq> PrimitiveType KNull \<and> set ms = {PrimitiveType KNull, x})
       \<and> (\<not> unionNeedsName (UnionType n ms)
            \<longleftrightarrow> (\<exists>y. y \<noteq> PrimitiveType KNull \<and> set ms = {PrimitiveType KNull, y}))"
proof -
  have a: "unionNeedsName (UnionType n ms) \<longleftrightarrow> nullableFromUnion (UnionType n ms) = None"
    by (simp add: unionNeedsName_def split: option.splits)
  have b: "nullableFromUnion (UnionType n ms) = Some y
            \<longleftrightarrow> y \<noteq> PrimitiveType KNull \<and> set ms = {PrimitiveType KNull, y}" for y
  proof
    assume "nullableFromUnion (UnionType n ms) = Some y"
    then show "y \<noteq> PrimitiveType KNull \<and> set ms = {PrimitiveType KNull, y}"
      by (auto simp: nullableFromUnion_Some_iff isNull_iff)
  next
    assume h: "y \<noteq> PrimitiveType KNull \<and> set ms = {PrimitiveType KNull, y}"
    with two_element_set [OF assms, of "PrimitiveType KNull" y]
    have "ms = [PrimitiveType KNull, y] \<or> ms = [y, PrimitiveType KNull]" by auto
    with h show "nullableFromUnion (UnionType n ms) = Some y"
      by (simp add: nullableFromUnion_Some_iff isNull_iff)
  qed
  have c: "\<not> unionNeedsName (UnionType n ms)
            \<longleftrightarrow> (\<exists>y. y \<noteq> PrimitiveType KNull \<and> set ms = {PrimitiveType KNull, y})"
    using a b by auto
  from a b [of x] c show ?thesis by blast
qed

theorem unionNeedsName_iff_no_nullable_witness:
  "distinct [PrimitiveType KNull, PrimitiveType KString]
   \<and> \<not> unionNeedsName (UnionType ''u'' [PrimitiveType KNull, PrimitiveType KString])
   \<and> nullableFromUnion (UnionType ''u'' [PrimitiveType KNull, PrimitiveType KString])
       = Some (PrimitiveType KString)
   \<and> unionNeedsName (UnionType ''v'' [PrimitiveType KInteger, PrimitiveType KString])"
proof -
  have d1: "distinct [PrimitiveType KNull, PrimitiveType KString]" by simp
  have d2: "distinct [PrimitiveType KInteger, PrimitiveType KString]" by simp
  from unionNeedsName_iff_no_nullable [OF d1, of "''u''" "PrimitiveType KString"]
    unionNeedsName_iff_no_nullable [OF d2, of "''v''" "PrimitiveType KString"]
  show ?thesis by (auto simp: doubleton_eq_iff)
qed

section \<open>Which named types the naming pass registers\<close>

lemma set_toOrderedSet [simp]: "set (toOrderedSet xs) = set xs"
  by (simp add: toOrderedSet_def)

lemma distinct_toOrderedSet [simp]: "distinct (toOrderedSet xs)"
  by (simp add: toOrderedSet_def)

lemma classAndUnionNames_add [simp]: "classAndUnionNames (add ns n r) = classAndUnionNames r"
  by (simp add: add_def)

lemma classTable_add [simp]: "classTable (add ns n r) = classTable r"
  by (simp add: add_def)

lemma nextName_add [simp]: "nextName (add ns n r) = nextName r"
  by (simp add: add_def)

lemma classAndUnionNames_nameForTopLevel:
  "classAndUnionNames (snd (nameForTopLevel b t n r)) =
     (case namedTypeToNameForTopLevel b t of
        Some nt \<Rightarrow> (classAndUnionNames r)(nt \<mapsto> FixedName (nextName r) (namedTypeNamer b n))
      | None \<Rightarrow> classAndUnionNames r)"
  by (simp add: nameForTopLevel_def topLevelDependencyNames_def Let_def split: option.splits)

lemma dom_nameForTopLevel:
  "dom (classAndUnionNames (snd (nameForTopLevel b t n r))) =
     dom (classAndUnionNames r) \<union> set_option (namedTypeToNameForTopLevel b t)"
  by (auto simp: classAndUnionNames_nameForTopLevel split: option.splits)

lemma dom_nameTopLevels:
  "dom (classAndUnionNames (snd (nameTopLevels b tls r))) =
     dom (classAndUnionNames r) \<union> (\<Union>p \<in> set tls. set_option (namedTypeToNameForTopLevel b (snd p)))"
proof (induction tls arbitrary: r)
  case Nil
  show ?case by simp
next
  case (Cons p tls)
  obtain n t where p: "p = (n, t)" by (cases p)
  obtain named r1 where s: "nameForTopLevel b t n r = (named, r1)"
    by (cases "nameForTopLevel b t n r")
  then have r1: "r1 = snd (nameForTopLevel b t n r)" by simp
  have "classAndUnionNames (snd (nameTopLevels b (p # tls) r)) =
        classAndUnionNames (snd (nameTopLevels b tls r1))"
    by (simp add: p s split: prod.splits)
  then show ?case
    using Cons.IH [of r1] by (auto simp: r1 p dom_nameForTopLevel)
qed

lemma dom_addClassOrUnionNamed:
  "dom (classAndUnionNames (snd (addClassOrUnionNamed t r))) = insert t (dom (classAndUnionNames r))"
  by (auto simp: addClassOrUnionNamed_def Let_def split: option.splits)

lemma classAndUnionNames_addPropertyNames:
  "addPropertyNames ns ps r = (xs, r') \<Longrightarrow> classAndUnionNames r' = classAndUnionNames r"
proof (induction ps arbitrary: r xs r')
  case Nil
  then show ?case by simp
next
  case (Cons p ps)
  obtain n t where p: "p = (n, t)" by (cases p)
  let ?r1 = "add ns (SimpleName (nextName r) n PropertyNamer) (r\<lparr>nextName := Suc (nextName r)\<rparr>)"
  obtain rest r2 where s: "addPropertyNames ns ps ?r1 = (rest, r2)"
    by (cases "addPropertyNames ns ps ?r1")
  with Cons.prems have "r' = r2" by (simp add: p Let_def)
  moreover from Cons.IH [OF s] have "classAndUnionNames r2 = classAndUnionNames r" by simp
  ultimately show ?case by simp
qed

lemma classAndUnionNames_addPropertyNameds [simp]:
  "classAndUnionNames (addPropertyNameds b c classNamed r) = classAndUnionNames r"
proof -
  obtain fn fns where f: "forbiddenForProperties b c classNamed = (fn, fns)"
    by (cases "forbiddenForProperties b c classNamed")
  let ?r1 = "r\<lparr>namespaces := namespaces r @
                  [\<lparr>nsName = combinedName (classTable r) c, nsParent = Some globalNamespace,
                    forbiddenNamespaces = set fns, additionalForbidden = set fn,
                    forbiddenWords = {}, nsMembers = []\<rparr>]\<rparr>"
  obtain xs r2 where s: "addPropertyNames (length (namespaces r)) (propertiesOf (classTable r) c) ?r1 = (xs, r2)"
    by (cases "addPropertyNames (length (namespaces r)) (propertiesOf (classTable r) c) ?r1")
  from classAndUnionNames_addPropertyNames [OF s]
  have "classAndUnionNames r2 = classAndUnionNames r" by simp
  then show ?thesis
    by (simp add: addPropertyNameds_def Let_def f s)
qed

lemma dom_nameClass:
  "dom (classAndUnionNames (nameClass b c r)) = insert c (dom (classAndUnionNames r))"
proof -
  obtain named r1 where s: "addClassOrUnionNamed c r = (named, r1)"
    by (cases "addClassOrUnionNamed c r")
  with dom_addClassOrUnionNamed [of c r]
  have "dom (classAndUnionNames r1) = insert c (dom (classAndUnionNames r))" by simp
  then show ?thesis
    by (simp add: nameClass_def s)
qed

lemma dom_fold_nameClass:
  "dom (classAndUnionNames (fold (nameClass b) cs r)) = dom (classAndUnionNames r) \<union> set cs"
  by (induction cs arbitrary: r) (auto simp: dom_nameClass)

lemma dom_fold_nameUnion:
  "dom (classAndUnionNames (fold nameUnion us r)) = dom (classAndUnionNames r) \<union> set us"
  by (induction us arbitrary: r) (auto simp: nameUnion_def dom_addClassOrUnionNamed)

lemma dom_setUpNaming:
  "dom (classAndUnionNames (setUpNaming b classes unions r)) = registered b (topLevels r) classes unions"
proof -
  let ?r1 = "r\<lparr>namespaces := [keywordNamespace ''global'' (forbiddenNamesForGlobalNamespace b)],
                classAndUnionNames := Map.empty, propertyNames := Map.empty\<rparr>"
  obtain tl_names r2 where s: "nameTopLevels b (topLevels r) ?r1 = (tl_names, r2)"
    by (cases "nameTopLevels b (topLevels r) ?r1")
  then have r2: "r2 = snd (nameTopLevels b (topLevels r) ?r1)" by simp
  have "dom (classAndUnionNames r2) =
          (\<Union>p \<in> set (topLevels r). set_option (namedTypeToNameForTopLevel b (snd p)))"
    unfolding r2 dom_nameTopLevels by simp
  then show ?thesis
    by (simp add: setUpNaming_def Let_def s dom_fold_nameUnion dom_fold_nameClass registered_def)
qed

text \<open>
  C5. Requesting the name of a named type that the naming pass did not register raises
  the fault "Named type does not exist." and returns no name; for a registered named type
  the request returns the name allocated for it. This holds in every state of the
  renderer, and after \<open>setUpNaming\<close> the registered types are the top levels' named
  types, the classes and the unions that need a name.
\<close>

theorem nameForNamedType_registered:
  "(classAndUnionNames r t = None \<longrightarrow> nameForNamedType r t = Inl NamedTypeDoesNotExist)
   \<and> (\<forall>n. classAndUnionNames r t = Some n \<longrightarrow> nameForNamedType r t = Inr n)
   \<and> (t \<notin> registered b (topLevels r) classes unions \<longrightarrow>
        nameForNamedType (setUpNaming b classes unions r) t = Inl NamedTypeDoesNotExist)
   \<and> (t \<in> registered b (topLevels r) classes unions \<longrightarrow>
        (\<exists>n. nameForNamedType (setUpNaming b classes unions r) t = Inr n
             \<and> classAndUnionNames (setUpNaming b classes unions r) t = Some n))"
proof -
  have "t \<in> dom (classAndUnionNames (setUpNaming b classes unions r))
          \<longleftrightarrow> t \<in> registered b (topLevels r) classes unions"
    by (simp only: dom_setUpNaming)
  then show ?thesis
    by (auto simp: nameForNamedType_def dom_def split: option.splits)
qed

theorem nameForNamedType_registered_witness:
  "ClassType 0 \<in> registered (cppBackend id) [(''Person'', ClassType 0)] [ClassType 0] []
   \<and> (\<exists>n. nameForNamedType
          (setUpNaming (cppBackend id) [ClassType 0] []
             (newRenderer (\<lambda>c. \<lparr>combined = ''Person'', properties = []\<rparr>) [(''Person'', ClassType 0)]))
          (ClassType 0) = Inr n)
   \<and> ClassType 1 \<notin> registered (cppBackend id) [(''Person'', ClassType 0)] [ClassType 0] []
   \<and> nameForNamedType
          (setUpNaming (cppBackend id) [ClassType 0] []
             (newRenderer (\<lambda>c. \<lparr>combined = ''Person'', properties = []\<rparr>) [(''Person'', ClassType 0)]))
          (ClassType 1) = Inl NamedTypeDoesNotExist"
proof -
  let ?b = "cppBackend id"
  let ?r = "newRenderer (\<lambda>c. \<lparr>combined = ''Person'', properties = []\<rparr>) [(''Person'', ClassType 0)]"
  have tl: "topLevels ?r = [(''Person'', ClassType 0)]"
    by (simp add: newRenderer_def)
  have a: "ClassType 0 \<in> registered ?b [(''Person'', ClassType 0)] [ClassType 0] []"
    by (simp add: registered_def)
  have b: "ClassType 1 \<notin> registered ?b [(''Person'', ClassType 0)] [ClassType 0] []"
    by (simp add: registered_def cppBackend_def cppNamedTypeToNameForTopLevel_def isNamedType_def)
  from nameForNamedType_registered [of ?r "ClassType 0" ?b "[ClassType 0]" "[]"]
    nameForNamedType_registered [of ?r "ClassType 1" ?b "[ClassType 0]" "[]"] a b
  show ?thesis unfolding tl by blast
qed

section \<open>The namespaces of the properties\<close>

lemma namespaces_add: "namespaces (add k x r) = addMembers k [x] (namespaces r)"
  by (simp add: add_def addMembers_def not_less list_update_beyond)

lemma propertyNames_add [simp]: "propertyNames (add k x r) = propertyNames r"
  by (simp add: add_def)

lemma length_addMembers [simp]: "length (addMembers k xs nss) = length nss"
  by (simp add: addMembers_def)

lemma addMembers_nth:
  "i < length nss \<Longrightarrow>
     addMembers k xs nss ! i =
       (if i = k then (nss ! i)\<lparr>nsMembers := nsMembers (nss ! i) @ xs\<rparr> else nss ! i)"
  by (simp add: addMembers_def)

lemma addMembers_addMembers:
  "addMembers k ys (addMembers k xs nss) = addMembers k (xs @ ys) nss"
  by (cases "k < length nss") (simp_all add: addMembers_def not_less list_update_beyond)

lemma ran_update_subset: "ran (m(t \<mapsto> x)) \<subseteq> insert x (ran m)"
  by (auto simp: ran_def)

text \<open>A name that is no name of a property is added to the global namespace.\<close>

lemma namingInvariant_global_step:
  assumes inv: "namingInvariant b r"
    and nss: "namespaces r' = addMembers 0 [x] (namespaces r)"
    and x: "\<not> isPropertyName x"
    and pn: "propertyNames r' = propertyNames r"
    and tbl: "classTable r' = classTable r"
    and cu: "classAndUnionNames r' = classAndUnionNames r
             \<or> (\<exists>t. propertyNames r t = None \<and> classAndUnionNames r' = (classAndUnionNames r)(t \<mapsto> x))"
  shows "namingInvariant b r'"
proof -
  from inv have g: "globalInvariant b r"
    and old: "\<And>c pn. propertyNames r c = Some pn \<Longrightarrow>
                (\<forall>n \<in> snd ` set pn. isPropertyName n)
                \<and> (\<exists>named i. classAndUnionNames r c = Some named \<and> propertyNamespace b r c pn named i)"
    unfolding namingInvariant_def by blast+
  from g have ne: "0 < length (namespaces r)" by (simp add: globalInvariant_def)
  have zero: "namespaces r' ! 0 = (namespaces r ! 0)\<lparr>nsMembers := nsMembers (namespaces r ! 0) @ [x]\<rparr>"
    using ne by (simp add: nss addMembers_nth)
  have later: "namespaces r' ! i = namespaces r ! i" if "0 < i" "i < length (namespaces r)" for i
    using that by (simp add: nss addMembers_nth)
  have ran': "ran (classAndUnionNames r') \<subseteq> insert x (ran (classAndUnionNames r))"
  proof -
    from cu consider "classAndUnionNames r' = classAndUnionNames r"
      | t where "classAndUnionNames r' = (classAndUnionNames r)(t \<mapsto> x)" by blast
    then show ?thesis
    proof cases
      case 1
      then show ?thesis by auto
    next
      case 2
      then show ?thesis by (simp only: ran_update_subset)
    qed
  qed
  have len: "length (namespaces r') = length (namespaces r)"
    by (simp add: nss)
  with ne have ne': "namespaces r' \<noteq> []" by auto
  have g': "globalInvariant b r'"
    using g x ran' ne' unfolding globalInvariant_def zero by auto
  have new: "(\<forall>n \<in> snd ` set ps. isPropertyName n)
           \<and> (\<exists>named i. classAndUnionNames r' c = Some named \<and> propertyNamespace b r' c ps named i)"
    if h: "propertyNames r' c = Some ps" for c ps
  proof -
    from h have h': "propertyNames r c = Some ps" by (simp add: pn)
    from old [OF h'] obtain named i where isp: "\<forall>n \<in> snd ` set ps. isPropertyName n"
      and named: "classAndUnionNames r c = Some named" and p: "propertyNamespace b r c ps named i"
      by blast
    from cu h' named have named': "classAndUnionNames r' c = Some named" by auto
    from p have i: "0 < i" "i < length (namespaces r)" by (simp_all add: propertyNamespace_def)
    from p have "propertyNamespace b r' c ps named i"
      unfolding propertyNamespace_def later [OF i] tbl by (simp add: nss)
    with isp named' show ?thesis by blast
  qed
  from g' new show ?thesis unfolding namingInvariant_def by blast
qed

lemma nameForTopLevel_effect:
  "\<exists>x. \<not> isPropertyName x
     \<and> namespaces (snd (nameForTopLevel b t n r)) = addMembers 0 [x] (namespaces r)
     \<and> propertyNames (snd (nameForTopLevel b t n r)) = propertyNames r
     \<and> classTable (snd (nameForTopLevel b t n r)) = classTable r
     \<and> (classAndUnionNames (snd (nameForTopLevel b t n r)) = classAndUnionNames r
        \<or> (\<exists>t'. classAndUnionNames (snd (nameForTopLevel b t n r)) = (classAndUnionNames r)(t' \<mapsto> x)))"
proof (cases "namedTypeToNameForTopLevel b t")
  case None
  show ?thesis
    by (rule exI [of _ "FixedName (nextName r) (topLevelNameStyle b n)"])
      (simp add: nameForTopLevel_def Let_def topLevelDependencyNames_def None
        namespaces_add globalNamespace_def)
next
  case (Some nt)
  show ?thesis
    by (rule exI [of _ "FixedName (nextName r) (namedTypeNamer b n)"])
      (auto simp: nameForTopLevel_def Let_def topLevelDependencyNames_def Some
        namespaces_add globalNamespace_def)
qed

lemma namingInvariant_nameForTopLevel:
  assumes "namingInvariant b r" and "propertyNames r = Map.empty"
  shows "namingInvariant b (snd (nameForTopLevel b t n r))
       \<and> propertyNames (snd (nameForTopLevel b t n r)) = Map.empty"
proof -
  from nameForTopLevel_effect [of b t n r] obtain x where x: "\<not> isPropertyName x"
    and 1: "namespaces (snd (nameForTopLevel b t n r)) = addMembers 0 [x] (namespaces r)"
    and 2: "propertyNames (snd (nameForTopLevel b t n r)) = propertyNames r"
    and 3: "classTable (snd (nameForTopLevel b t n r)) = classTable r"
    and 4: "classAndUnionNames (snd (nameForTopLevel b t n r)) = classAndUnionNames r
        \<or> (\<exists>t'. classAndUnionNames (snd (nameForTopLevel b t n r)) = (classAndUnionNames r)(t' \<mapsto> x))"
    by blast
  from 4 assms(2)
  have 5: "classAndUnionNames (snd (nameForTopLevel b t n r)) = classAndUnionNames r
        \<or> (\<exists>t'. propertyNames r t' = None
              \<and> classAndUnionNames (snd (nameForTopLevel b t n r)) = (classAndUnionNames r)(t' \<mapsto> x))"
    by simp
  from namingInvariant_global_step [OF assms(1) 1 x 2 3 5] 2 assms(2) show ?thesis by simp
qed

lemma namingInvariant_nameTopLevels:
  assumes "namingInvariant b r" and "propertyNames r = Map.empty"
  shows "namingInvariant b (snd (nameTopLevels b tls r))
       \<and> propertyNames (snd (nameTopLevels b tls r)) = Map.empty"
  using assms
proof (induction tls arbitrary: r)
  case Nil
  then show ?case by simp
next
  case (Cons p tls)
  obtain n t where p: "p = (n, t)" by (cases p)
  obtain named r1 where s: "nameForTopLevel b t n r = (named, r1)"
    by (cases "nameForTopLevel b t n r")
  with namingInvariant_nameForTopLevel [OF Cons.prems, of t n]
  have "namingInvariant b r1" and "propertyNames r1 = Map.empty" by simp_all
  from Cons.IH [OF this] show ?case
    by (cases "nameTopLevels b tls r1") (simp add: p s)
qed

lemma namingInvariant_addClassOrUnionNamed:
  assumes "namingInvariant b r"
  shows "namingInvariant b (snd (addClassOrUnionNamed t r))
       \<and> classAndUnionNames (snd (addClassOrUnionNamed t r)) t = Some (fst (addClassOrUnionNamed t r))
       \<and> propertyNames (snd (addClassOrUnionNamed t r)) = propertyNames r"
proof (cases "classAndUnionNames r t")
  case None
  let ?x = "SimpleName (nextName r) (combinedName (classTable r) t) NamedTypeNamer"
  let ?r' = "snd (addClassOrUnionNamed t r)"
  have res: "addClassOrUnionNamed t r =
      (?x, (add globalNamespace ?x (r\<lparr>nextName := Suc (nextName r)\<rparr>))
              \<lparr>classAndUnionNames := (classAndUnionNames r)(t \<mapsto> ?x)\<rparr>)"
    by (simp add: addClassOrUnionNamed_def None Let_def)
  have 1: "namespaces ?r' = addMembers 0 [?x] (namespaces r)"
    by (simp add: res namespaces_add globalNamespace_def)
  have 2: "propertyNames ?r' = propertyNames r" by (simp add: res)
  have 3: "classTable ?r' = classTable r" by (simp add: res)
  have none: "propertyNames r t = None"
  proof (cases "propertyNames r t")
    case (Some ps)
    with assms have "\<exists>named. classAndUnionNames r t = Some named"
      unfolding namingInvariant_def by blast
    with None show ?thesis by simp
  qed simp
  have 4: "classAndUnionNames ?r' = classAndUnionNames r
        \<or> (\<exists>t'. propertyNames r t' = None \<and> classAndUnionNames ?r' = (classAndUnionNames r)(t' \<mapsto> ?x))"
    using none by (auto simp: res)
  have "namingInvariant b ?r'"
    by (rule namingInvariant_global_step [OF assms 1 _ 2 3 4]) simp
  moreover have "classAndUnionNames ?r' t = Some (fst (addClassOrUnionNamed t r))"
    by (simp add: res)
  ultimately show ?thesis using 2 by blast
next
  case (Some named)
  with assms show ?thesis by (simp add: addClassOrUnionNamed_def)
qed

lemma addPropertyNames_result:
  assumes "addPropertyNames k ps r = (xs, r')"
  shows "namespaces r' = addMembers k (map snd xs) (namespaces r)
       \<and> propertyNames r' = propertyNames r
       \<and> classTable r' = classTable r
       \<and> (\<forall>n \<in> snd ` set xs. isPropertyName n)"
  using assms
proof (induction ps arbitrary: r xs r')
  case Nil
  then show ?case
    by (cases "k < length (namespaces r)") (auto simp: addMembers_def not_less list_update_beyond)
next
  case (Cons p ps)
  obtain n t where p: "p = (n, t)" by (cases p)
  let ?x = "SimpleName (nextName r) n PropertyNamer"
  let ?r1 = "add k ?x (r\<lparr>nextName := Suc (nextName r)\<rparr>)"
  obtain rest r2 where s: "addPropertyNames k ps ?r1 = (rest, r2)"
    by (cases "addPropertyNames k ps ?r1")
  with Cons.prems have xs: "xs = (n, ?x) # rest" and r': "r' = r2"
    by (simp_all add: p Let_def)
  from Cons.IH [OF s] have "namespaces r2 = addMembers k (map snd rest) (namespaces ?r1)"
    and "propertyNames r2 = propertyNames ?r1" and "classTable r2 = classTable ?r1"
    and "\<forall>n \<in> snd ` set rest. isPropertyName n"
    by simp_all
  then show ?case
    by (simp add: xs r' namespaces_add addMembers_addMembers)
qed

text \<open>The namespace of a class is appended, with the names of its properties.\<close>

lemma namingInvariant_addPropertyNameds:
  assumes inv: "namingInvariant b r" and named: "classAndUnionNames r c = Some classNamed"
  shows "namingInvariant b (addPropertyNameds b c classNamed r)
       \<and> dom (propertyNames (addPropertyNameds b c classNamed r)) = insert c (dom (propertyNames r))"
proof -
  obtain fn fns where f: "forbiddenForProperties b c classNamed = (fn, fns)"
    by (cases "forbiddenForProperties b c classNamed")
  let ?k = "length (namespaces r)"
  let ?N = "\<lparr>nsName = combinedName (classTable r) c, nsParent = Some globalNamespace,
             forbiddenNamespaces = set fns, additionalForbidden = set fn,
             forbiddenWords = {}, nsMembers = []\<rparr>"
  let ?r1 = "r\<lparr>namespaces := namespaces r @ [?N]\<rparr>"
  obtain xs r2 where s: "addPropertyNames ?k (propertiesOf (classTable r) c) ?r1 = (xs, r2)"
    by (cases "addPropertyNames ?k (propertiesOf (classTable r) c) ?r1")
  let ?r' = "r2\<lparr>propertyNames := (propertyNames r2)(c \<mapsto> xs)\<rparr>"
  have res: "addPropertyNameds b c classNamed r = ?r'"
    by (simp add: addPropertyNameds_def Let_def f s)
  from addPropertyNames_result [OF s]
  have nss2: "namespaces r2 = namespaces r @ [?N\<lparr>nsMembers := map snd xs\<rparr>]"
    and pn2: "propertyNames r2 = propertyNames r"
    and tbl2: "classTable r2 = classTable r"
    and isprop: "\<forall>n \<in> snd ` set xs. isPropertyName n"
    by (simp_all add: addMembers_def)
  from classAndUnionNames_addPropertyNames [OF s]
  have cu2: "classAndUnionNames r2 = classAndUnionNames r" by simp
  have nss: "namespaces ?r' = namespaces r @ [?N\<lparr>nsMembers := map snd xs\<rparr>]"
    and pn: "propertyNames ?r' = (propertyNames r)(c \<mapsto> xs)"
    and tbl: "classTable ?r' = classTable r"
    and cu: "classAndUnionNames ?r' = classAndUnionNames r"
    by (simp_all add: nss2 pn2 tbl2 cu2)
  from inv have g: "globalInvariant b r"
    and old: "\<And>c' ps. propertyNames r c' = Some ps \<Longrightarrow>
                (\<forall>n \<in> snd ` set ps. isPropertyName n)
                \<and> (\<exists>named i. classAndUnionNames r c' = Some named \<and> propertyNamespace b r c' ps named i)"
    unfolding namingInvariant_def by blast+
  from g have k: "0 < ?k" by (simp add: globalInvariant_def)
  have zero: "namespaces ?r' ! 0 = namespaces r ! 0"
    using k unfolding nss by (simp add: nth_append)
  have g': "globalInvariant b ?r'"
    using g unfolding globalInvariant_def zero cu by (simp add: nss)
  have created: "propertyNamespace b ?r' c xs classNamed ?k"
    unfolding propertyNamespace_def nss tbl using k f by (simp add: nth_append)
  have new: "(\<forall>n \<in> snd ` set ps. isPropertyName n)
           \<and> (\<exists>named i. classAndUnionNames ?r' c' = Some named \<and> propertyNamespace b ?r' c' ps named i)"
    if h: "propertyNames ?r' c' = Some ps" for c' ps
  proof (cases "c' = c")
    case True
    with h have "ps = xs" unfolding pn by simp
    with True isprop created named show ?thesis unfolding cu by blast
  next
    case False
    with h have h': "propertyNames r c' = Some ps" unfolding pn by simp
    from old [OF h'] obtain nm i where isp: "\<forall>n \<in> snd ` set ps. isPropertyName n"
      and nm: "classAndUnionNames r c' = Some nm" and p: "propertyNamespace b r c' ps nm i"
      by blast
    from p have "propertyNamespace b ?r' c' ps nm i"
      unfolding propertyNamespace_def nss tbl by (simp add: nth_append)
    with isp nm show ?thesis unfolding cu by blast
  qed
  from g' new have "namingInvariant b ?r'" unfolding namingInvariant_def by blast
  moreover have "dom (propertyNames ?r') = insert c (dom (propertyNames r))"
    unfolding pn by simp
  ultimately show ?thesis unfolding res by blast
qed

lemma namingInvariant_nameClass:
  assumes "namingInvariant b r"
  shows "namingInvariant b (nameClass b c r)
       \<and> dom (propertyNames (nameClass b c r)) = insert c (dom (propertyNames r))"
proof -
  obtain named r1 where s: "addClassOrUnionNamed c r = (named, r1)"
    by (cases "addClassOrUnionNamed c r")
  with namingInvariant_addClassOrUnionNamed [OF assms, of c]
  have 1: "namingInvariant b r1" and 2: "classAndUnionNames r1 c = Some named"
    and 3: "propertyNames r1 = propertyNames r" by simp_all
  from namingInvariant_addPropertyNameds [OF 1 2] 3 show ?thesis
    by (simp add: nameClass_def s)
qed

lemma namingInvariant_fold_nameClass:
  assumes "namingInvariant b r"
  shows "namingInvariant b (fold (nameClass b) cs r)
       \<and> dom (propertyNames (fold (nameClass b) cs r)) = dom (propertyNames r) \<union> set cs"
  using assms
proof (induction cs arbitrary: r)
  case Nil
  then show ?case by simp
next
  case (Cons c cs)
  from namingInvariant_nameClass [OF Cons.prems, of c]
  have 1: "namingInvariant b (nameClass b c r)"
    and 2: "dom (propertyNames (nameClass b c r)) = insert c (dom (propertyNames r))" by simp_all
  from Cons.IH [OF 1] 2 show ?case by auto
qed

lemma namingInvariant_fold_nameUnion:
  assumes "namingInvariant b r"
  shows "namingInvariant b (fold nameUnion us r)
       \<and> propertyNames (fold nameUnion us r) = propertyNames r"
  using assms
proof (induction us arbitrary: r)
  case Nil
  then show ?case by simp
next
  case (Cons u us)
  from namingInvariant_addClassOrUnionNamed [OF Cons.prems, of u]
  have 1: "namingInvariant b (nameUnion u r)"
    and 2: "propertyNames (nameUnion u r) = propertyNames r" by (simp_all add: nameUnion_def)
  from Cons.IH [OF 1] 2 show ?case by simp
qed

lemma namingInvariant_setUpNaming:
  "namingInvariant b (setUpNaming b classes unions r)
   \<and> dom (propertyNames (setUpNaming b classes unions r)) = set classes"
proof -
  let ?r1 = "r\<lparr>namespaces := [keywordNamespace ''global'' (forbiddenNamesForGlobalNamespace b)],
                classAndUnionNames := Map.empty, propertyNames := Map.empty\<rparr>"
  have 1: "namingInvariant b ?r1"
    by (simp add: namingInvariant_def globalInvariant_def keywordNamespace_def)
  obtain tl_names r2 where s: "nameTopLevels b (topLevels r) ?r1 = (tl_names, r2)"
    by (cases "nameTopLevels b (topLevels r) ?r1")
  with namingInvariant_nameTopLevels [OF 1, of "topLevels r"]
  have 2: "namingInvariant b r2" and e: "propertyNames r2 = Map.empty" by simp_all
  let ?r3 = "r2\<lparr>topLevelNames := map_of tl_names\<rparr>"
  from 2 have 3: "namingInvariant b ?r3"
    by (simp add: namingInvariant_def globalInvariant_def propertyNamespace_def)
  from e have e3: "dom (propertyNames ?r3) = {}" by simp
  from namingInvariant_fold_nameClass [OF 3, of classes] e3
  have 4: "namingInvariant b (fold (nameClass b) classes ?r3)"
    and d4: "dom (propertyNames (fold (nameClass b) classes ?r3)) = set classes" by simp_all
  from namingInvariant_fold_nameUnion [OF 4] d4 show ?thesis
    by (simp add: setUpNaming_def Let_def s)
qed

text \<open>
  C4. For every class \<open>c\<close> that the naming pass names, the namespace created for its
  properties is a child of the global namespace that carries the name of the class and
  holds the names of its properties. Its forbidden set is the union of the names and
  the members of the namespaces that \<open>forbiddenForProperties\<close> supplies for the class
  and its name with the names allocated in the global namespace and everything the
  global namespace forbids; its forbidden words are those of the global namespace, the
  backend's. Hence, however the names are resolved, as long as the resolution is unique,
  no name of a property of \<open>c\<close> resolves to a forbidden word of the global namespace or to
  the string of a name allocated in it, the name of any named type among them.
\<close>

theorem property_namespace_forbids_global_names:
  assumes "c \<in> set classes"
  shows "\<exists>pn named i.
           propertyNames (setUpNaming b classes unions r) c = Some pn
         \<and> classAndUnionNames (setUpNaming b classes unions r) c = Some named
         \<and> 0 < i \<and> i < length (namespaces (setUpNaming b classes unions r))
         \<and> nsName (namespaces (setUpNaming b classes unions r) ! i)
             = combinedName (classTable (setUpNaming b classes unions r)) c
         \<and> nsMembers (namespaces (setUpNaming b classes unions r) ! i) = map snd pn
         \<and> nsParent (namespaces (setUpNaming b classes unions r) ! i) = Some globalNamespace
         \<and> forbiddenNames (namespaces (setUpNaming b classes unions r))
              (namespaces (setUpNaming b classes unions r) ! i)
             = set (fst (forbiddenForProperties b c named))
               \<union> (\<Union>j \<in> set (snd (forbiddenForProperties b c named)).
                     if j < length (namespaces (setUpNaming b classes unions r))
                     then set (nsMembers (namespaces (setUpNaming b classes unions r) ! j)) else {})
               \<union> set (nsMembers (namespaces (setUpNaming b classes unions r) ! globalNamespace))
               \<union> forbiddenNames (namespaces (setUpNaming b classes unions r))
                   (namespaces (setUpNaming b classes unions r) ! globalNamespace)
         \<and> forbiddenWordsIn (namespaces (setUpNaming b classes unions r))
              (namespaces (setUpNaming b classes unions r) ! i)
             = forbiddenWordsIn (namespaces (setUpNaming b classes unions r))
                 (namespaces (setUpNaming b classes unions r) ! globalNamespace)
         \<and> forbiddenWordsIn (namespaces (setUpNaming b classes unions r))
              (namespaces (setUpNaming b classes unions r) ! globalNamespace)
             = set (forbiddenNamesForGlobalNamespace b)
         \<and> (\<forall>resolved. uniquelyResolved ((setUpNaming b classes unions r)\<lparr>names := resolved\<rparr>) \<longrightarrow>
              (\<forall>n \<in> snd ` set pn.
                   resolved n \<notin> set (forbiddenNamesForGlobalNamespace b)
                 \<and> (\<forall>t tn. classAndUnionNames (setUpNaming b classes unions r) t = Some tn
                        \<longrightarrow> resolved n \<noteq> resolved tn)
                 \<and> (\<forall>m \<in> set (nsMembers (namespaces (setUpNaming b classes unions r) ! globalNamespace)).
                        resolved n \<noteq> resolved m)))"
proof -
  let ?R = "setUpNaming b classes unions r"
  let ?nss = "namespaces ?R"
  have inv: "namingInvariant b ?R" and d: "dom (propertyNames ?R) = set classes"
    using namingInvariant_setUpNaming [of b classes unions r] by simp_all
  from assms d obtain pn where pn: "propertyNames ?R c = Some pn" by auto
  from inv have g: "globalInvariant b ?R" unfolding namingInvariant_def by blast
  from inv pn obtain named i where isp: "\<forall>n \<in> snd ` set pn. isPropertyName n"
    and named: "classAndUnionNames ?R c = Some named"
    and p: "propertyNamespace b ?R c pn named i"
    unfolding namingInvariant_def by blast
  from p have i: "0 < i" "i < length ?nss"
    and nm: "nsName (?nss ! i) = combinedName (classTable ?R) c"
    and mem: "nsMembers (?nss ! i) = map snd pn"
    and par: "nsParent (?nss ! i) = Some globalNamespace"
    and fns: "forbiddenNamespaces (?nss ! i) = set (snd (forbiddenForProperties b c named))"
    and fn: "additionalForbidden (?nss ! i) = set (fst (forbiddenForProperties b c named))"
    and fw: "forbiddenWords (?nss ! i) = {}"
    unfolding propertyNamespace_def by simp_all
  from g have ne: "globalNamespace < length ?nss"
    and gpar: "nsParent (?nss ! globalNamespace) = None"
    and gw: "forbiddenWords (?nss ! globalNamespace) = set (forbiddenNamesForGlobalNamespace b)"
    and gmem: "\<forall>m \<in> set (nsMembers (?nss ! globalNamespace)). \<not> isPropertyName m"
    and gran: "ran (classAndUnionNames ?R) \<subseteq> set (nsMembers (?nss ! globalNamespace))"
    unfolding globalInvariant_def globalNamespace_def by simp_all
  from par ne have parent: "parentNamespace ?nss (?nss ! i) = Some (?nss ! globalNamespace)"
    by (simp add: parentNamespace_def)
  from gpar have gparent: "parentNamespace ?nss (?nss ! globalNamespace) = None"
    by (simp add: parentNamespace_def)
  have names_eq: "forbiddenNames ?nss (?nss ! i)
             = set (fst (forbiddenForProperties b c named))
               \<union> (\<Union>j \<in> set (snd (forbiddenForProperties b c named)).
                     if j < length ?nss then set (nsMembers (?nss ! j)) else {})
               \<union> set (nsMembers (?nss ! globalNamespace))
               \<union> forbiddenNames ?nss (?nss ! globalNamespace)"
    by (simp add: forbiddenNames_def parent gparent ownForbiddenNames_def fns fn Un_assoc)
  have gwords: "forbiddenWordsIn ?nss (?nss ! globalNamespace) = set (forbiddenNamesForGlobalNamespace b)"
    by (simp add: forbiddenWordsIn_def gparent gw)
  have words_eq: "forbiddenWordsIn ?nss (?nss ! i) = forbiddenWordsIn ?nss (?nss ! globalNamespace)"
    by (simp add: forbiddenWordsIn_def parent gparent fw)
  have avoid: "resolved n \<notin> set (forbiddenNamesForGlobalNamespace b)
             \<and> (\<forall>t tn. classAndUnionNames ?R t = Some tn \<longrightarrow> resolved n \<noteq> resolved tn)
             \<and> (\<forall>m \<in> set (nsMembers (?nss ! globalNamespace)). resolved n \<noteq> resolved m)"
    if uniq: "uniquelyResolved (?R\<lparr>names := resolved\<rparr>)" and n: "n \<in> snd ` set pn" for resolved n
  proof -
    from i have "?nss ! i \<in> set ?nss" by simp
    moreover from n mem have "n \<in> set (nsMembers (?nss ! i))" by simp
    ultimately have w: "resolved n \<notin> forbiddenWordsIn ?nss (?nss ! i)"
      and u: "\<forall>m' \<in> set (nsMembers (?nss ! i)) \<union> forbiddenNames ?nss (?nss ! i).
                m' \<noteq> n \<longrightarrow> resolved m' \<noteq> resolved n"
      using uniq unfolding uniquelyResolved_def by auto
    from w have 1: "resolved n \<notin> set (forbiddenNamesForGlobalNamespace b)"
      by (simp add: words_eq gwords)
    have 2: "resolved n \<noteq> resolved m" if m: "m \<in> set (nsMembers (?nss ! globalNamespace))" for m
    proof -
      from m gmem have "\<not> isPropertyName m" by blast
      with n isp have "m \<noteq> n" by blast
      moreover from m have "m \<in> forbiddenNames ?nss (?nss ! i)"
        unfolding names_eq by blast
      ultimately show ?thesis using u by fastforce
    qed
    have 3: "resolved n \<noteq> resolved tn" if "classAndUnionNames ?R t = Some tn" for t tn
    proof -
      from that have "tn \<in> ran (classAndUnionNames ?R)" by (auto simp: ran_def)
      with gran show ?thesis using 2 by blast
    qed
    from 1 2 3 show ?thesis by blast
  qed
  from avoid
  have last: "\<forall>resolved. uniquelyResolved (?R\<lparr>names := resolved\<rparr>) \<longrightarrow>
              (\<forall>n \<in> snd ` set pn.
                   resolved n \<notin> set (forbiddenNamesForGlobalNamespace b)
                 \<and> (\<forall>t tn. classAndUnionNames ?R t = Some tn \<longrightarrow> resolved n \<noteq> resolved tn)
                 \<and> (\<forall>m \<in> set (nsMembers (?nss ! globalNamespace)). resolved n \<noteq> resolved m))"
    by blast
  show ?thesis
    apply (rule exI [of _ pn], rule exI [of _ named], rule exI [of _ i])
    apply (intro conjI)
    apply (rule pn named i nm mem par names_eq words_eq gwords last)+
    done
qed

theorem property_namespace_forbids_global_names_witness:
  "uniquelyResolved ((personNaming (defaultBackend id))\<lparr>names := underscoredName\<rparr>)
   \<and> \<not> uniquelyResolved ((personNaming (defaultBackend id))\<lparr>names := rawName\<rparr>)
   \<and> propertyNames (personNaming (defaultBackend id)) (ClassType 0)
       = Some [(''Person'', SimpleName 1 ''Person'' PropertyNamer)]
   \<and> classAndUnionNames (personNaming (defaultBackend id)) (ClassType 0) = Some (FixedName 0 ''Person'')
   \<and> (\<exists>i. 0 < i \<and> i < length (namespaces (personNaming (defaultBackend id)))
        \<and> nsMembers (namespaces (personNaming (defaultBackend id)) ! i)
            = [SimpleName 1 ''Person'' PropertyNamer]
        \<and> FixedName 0 ''Person''
            \<in> forbiddenNames (namespaces (personNaming (defaultBackend id)))
                (namespaces (personNaming (defaultBackend id)) ! i)
        \<and> (\<forall>m \<in> set (nsMembers (namespaces (personNaming (defaultBackend id)) ! globalNamespace)).
              underscoredName (SimpleName 1 ''Person'' PropertyNamer) \<noteq> underscoredName m))"
proof -
  let ?P = "personNaming (defaultBackend id)"
  have u: "uniquelyResolved (?P\<lparr>names := underscoredName\<rparr>)"
    by code_simp
  have v: "\<not> uniquelyResolved (?P\<lparr>names := rawName\<rparr>)"
    by code_simp
  have p: "propertyNames ?P (ClassType 0) = Some [(''Person'', SimpleName 1 ''Person'' PropertyNamer)]"
    by code_simp
  have q: "classAndUnionNames ?P (ClassType 0) = Some (FixedName 0 ''Person'')"
    by code_simp
  have g: "FixedName 0 ''Person'' \<in> set (nsMembers (namespaces ?P ! globalNamespace))"
    by code_simp
  have c: "ClassType 0 \<in> set [ClassType 0]"
    by simp
  from property_namespace_forbids_global_names
    [of "ClassType 0" "[ClassType 0]" "defaultBackend id" "[]"
        "newRenderer (\<lambda>c. \<lparr>combined = ''Person'', properties = [(''Person'', PrimitiveType KString)]\<rparr>)
           [(''Person'', ClassType 0)]",
     OF c, folded personNaming_def]
  obtain pn named i where pn: "propertyNames ?P (ClassType 0) = Some pn"
    and i: "0 < i" "i < length (namespaces ?P)"
    and mem: "nsMembers (namespaces ?P ! i) = map snd pn"
    and names_eq: "forbiddenNames (namespaces ?P) (namespaces ?P ! i)
             = set (fst (forbiddenForProperties (defaultBackend id) (ClassType 0) named))
               \<union> (\<Union>j \<in> set (snd (forbiddenForProperties (defaultBackend id) (ClassType 0) named)).
                     if j < length (namespaces ?P) then set (nsMembers (namespaces ?P ! j)) else {})
               \<union> set (nsMembers (namespaces ?P ! globalNamespace))
               \<union> forbiddenNames (namespaces ?P) (namespaces ?P ! globalNamespace)"
    and av: "\<forall>resolved. uniquelyResolved (?P\<lparr>names := resolved\<rparr>) \<longrightarrow>
              (\<forall>n \<in> snd ` set pn.
                   resolved n \<notin> set (forbiddenNamesForGlobalNamespace (defaultBackend id))
                 \<and> (\<forall>t tn. classAndUnionNames ?P t = Some tn \<longrightarrow> resolved n \<noteq> resolved tn)
                 \<and> (\<forall>m \<in> set (nsMembers (namespaces ?P ! globalNamespace)). resolved n \<noteq> resolved m))"
    by (elim exE conjE)
  have fb: "set (nsMembers (namespaces ?P ! globalNamespace))
               \<subseteq> forbiddenNames (namespaces ?P) (namespaces ?P ! i)"
    unfolding names_eq by blast
  from pn p have pn': "pn = [(''Person'', SimpleName 1 ''Person'' PropertyNamer)]" by simp
  from av u have "\<forall>n \<in> snd ` set pn.
              \<forall>m \<in> set (nsMembers (namespaces ?P ! globalNamespace)). underscoredName n \<noteq> underscoredName m"
    by blast
  then have "\<forall>m \<in> set (nsMembers (namespaces ?P ! globalNamespace)).
              underscoredName (SimpleName 1 ''Person'' PropertyNamer) \<noteq> underscoredName m"
    unfolding pn' by simp
  moreover from mem have "nsMembers (namespaces ?P ! i) = [SimpleName 1 ''Person'' PropertyNamer]"
    unfolding pn' by simp
  moreover from fb g have "FixedName 0 ''Person'' \<in> forbiddenNames (namespaces ?P) (namespaces ?P ! i)"
    by blast
  ultimately show ?thesis using u v p q i by blast
qed

section \<open>Nullable unions in naming, ordering and rendering\<close>

lemma emitSource_unions_need_name:
  assumes "u \<in> set (namedTypes (emitSource types r)) \<union> set (namedUnions (emitSource types r))"
    and "isUnion u"
  shows "unionNeedsName u"
  using assms by (auto simp: emitSource_def splitClassesAndUnions_def Let_def)

lemma cppType_nullable:
  assumes "nullableFromUnion (UnionType n ms) = Some x"
  shows "cppType r (UnionType n ms) w =
           (case cppType r x w of
              Inl e \<Rightarrow> Inl e
            | Inr s \<Rightarrow> Inr (Seq [Str ''boost::optional<'', s, Str ''>'']))"
  using assms by simp

lemma nullable_union_named_only_as_top_level:
  assumes "isUnion u" and "\<not> unionNeedsName u" and "\<forall>c \<in> set classes. isClass c"
  shows "classAndUnionNames (setUpNaming b classes unions r) u \<noteq> None
           \<longleftrightarrow> (\<exists>p \<in> set (topLevels r). namedTypeToNameForTopLevel b (snd p) = Some u)"
proof -
  from assms have "u \<notin> set classes" by (cases u) auto
  with assms(2) have "u \<in> registered b (topLevels r) classes unions
           \<longleftrightarrow> (\<exists>p \<in> set (topLevels r). namedTypeToNameForTopLevel b (snd p) = Some u)"
    by (auto simp: registered_def)
  then show ?thesis
    by (simp add: dom_setUpNaming [symmetric] dom_def)
qed

text \<open>
  C2. A union of \<open>Null\<close> and one other type is to receive no name of its own and to stay
  out of the named types. \<open>emitSource\<close> keeps it out of the named types, \<open>cppType\<close> renders
  it as an optional, and the loop of \<open>setUpNaming\<close> over the unions skips it (the three
  lemmas above). When such a union is itself a top level, however, \<open>nameForTopLevel\<close>
  registers the top level's name for it, since \<open>namedTypeToNameForTopLevel\<close> of the C++
  renderer returns every named type: here the top level \<open>T\<close> is of type string-or-null,
  the union does not need a name, and after \<open>setUpNaming\<close> the request for its name
  returns the \<open>FixedName\<close> of the top level.
\<close>

theorem nullable_top_level_union_is_named:
  "\<not> unionNeedsName (UnionType ''T'' [PrimitiveType KNull, PrimitiveType KString])
   \<and> nameForNamedType
        (setUpNaming (cppBackend cppNameStyle) []
           [UnionType ''T'' [PrimitiveType KNull, PrimitiveType KString]]
           (newRenderer tbl [(''T'', UnionType ''T'' [PrimitiveType KNull, PrimitiveType KString])]))
        (UnionType ''T'' [PrimitiveType KNull, PrimitiveType KString])
       = Inr (FixedName 0 (cppNameStyle ''T''))"
  by (simp add: setUpNaming_def Let_def cppBackend_def cppNamedTypeToNameForTopLevel_def
      isNamedType_def newRenderer_def nameForTopLevel_def topLevelDependencyNames_def add_def
      globalNamespace_def keywordNamespace_def toOrderedSet_def nameForNamedType_def
      unionNeedsName_def nullableFromUnion_def)

section \<open>The to_json switch of a union and its variant\<close>

lemma rendersAs_Nil [simp]: "rendersAs r [] tys \<longleftrightarrow> tys = []"
  by (simp add: rendersAs_def)






















section \<open>The order of the named types\<close>

lemma calls_append [simp]: "calls (xs @ ys) = calls xs @ calls ys"
  by (induction xs rule: calls.induct) auto

lemma calls_forEachFrom_policy:
  "map_sum id calls (forEachFrom b xs p1 em) = map_sum id calls (forEachFrom b' xs p2 em)"
proof (induction xs arbitrary: b b')
  case Nil
  show ?case by simp
next
  case (Cons x xs)
  from Cons.IH [of False False] show ?case
    by (cases "em x"; cases "forEachFrom False xs p1 em"; cases "forEachFrom False xs p2 em") auto
qed

lemma forEachFrom_records:
  assumes "\<forall>t \<in> set ts. isUnion t \<or> (isClass t \<and> propertyNames r t \<noteq> None)"
  shows "\<exists>out. forEachFrom b ts p
            (\<lambda>t. if isClass t then callForClass r t recordClass
                 else if isUnion t then callForUnion r t recordUnion
                 else Inl NeitherClassNorUnion) = Inr out
          \<and> calls out = map (recordOf r) ts"
  using assms
proof (induction ts arbitrary: b)
  case Nil
  show ?case by simp
next
  case (Cons t ts)
  then obtain out where out: "forEachFrom False ts p
            (\<lambda>t. if isClass t then callForClass r t recordClass
                 else if isUnion t then callForUnion r t recordUnion
                 else Inl NeitherClassNorUnion) = Inr out" "calls out = map (recordOf r) ts"
    by fastforce
  from Cons.prems have t: "isUnion t \<or> (isClass t \<and> propertyNames r t \<noteq> None)" by simp
  show ?case
  proof (cases "isClass t")
    case True
    with t obtain pn where "propertyNames r t = Some pn" by (cases t) auto
    with True out show ?thesis
      by (simp add: callForClass_def recordClass_def recordOf_def)
  next
    case False
    with t have "isUnion t" by simp
    with False out show ?thesis
      by (simp add: callForUnion_def recordUnion_def recordOf_def)
  qed
qed

lemma isClassCall_recordOf [simp]: "isClassCall (recordOf r t) = isClass t"
  by (simp add: recordOf_def)


text \<open>
  C6. When every named type is a union or a class that has its property names, as after
  the naming pass, \<open>forEachNamedType\<close> completes in both directions, and the calls for
  classes with \<open>leavesFirst\<close> set are the calls for classes without it, in reverse order;
  the blank-line policies of the two traversals are arbitrary.
\<close>

theorem classes_leavesFirst_reversed:
  assumes "\<forall>t \<in> set (namedTypes r). isUnion t \<or> (isClass t \<and> propertyNames r t \<noteq> None)"
  shows "\<exists>rootsFirst leavesFirst.
           forEachNamedType r p False recordClass recordUnion = Inr rootsFirst
         \<and> forEachNamedType r p' True recordClass recordUnion = Inr leavesFirst
         \<and> filter isClassCall (calls leavesFirst) = rev (filter isClassCall (calls rootsFirst))"
proof -
  from assms have "\<forall>t \<in> set (rev (namedTypes r)). isUnion t \<or> (isClass t \<and> propertyNames r t \<noteq> None)"
    by simp
  from forEachFrom_records [OF assms, of True p] forEachFrom_records [OF this, of True p']
  show ?thesis
    unfolding forEachNamedType_def forEachWithBlankLines_def Let_def
    by (auto simp: rev_map rev_filter)
qed


theorem classes_leavesFirst_reversed_witness:
  "map_sum id (\<lambda>out. filter isClassCall (calls out))
      (forEachNamedType exampleRenderer Leading False recordClass recordUnion)
     = Inr [ClassCall (ClassType 0) (Some (FixedName 0 ''Person''))
              [(''age'', SimpleName 2 ''age'' PropertyNamer),
               (''home'', SimpleName 4 ''home'' PropertyNamer),
               (''name'', SimpleName 1 ''name'' PropertyNamer),
               (''nick'', SimpleName 5 ''nick'' PropertyNamer),
               (''value'', SimpleName 3 ''value'' PropertyNamer)],
            ClassCall (ClassType 1) (Some (SimpleName 6 ''Address'' NamedTypeNamer))
              [(''street'', SimpleName 7 ''street'' PropertyNamer)]]
   \<and> (\<exists>rootsFirst leavesFirst.
          forEachNamedType exampleRenderer Leading False recordClass recordUnion = Inr rootsFirst
        \<and> forEachNamedType exampleRenderer Interposing True recordClass recordUnion = Inr leavesFirst
        \<and> filter isClassCall (calls leavesFirst) = rev (filter isClassCall (calls rootsFirst)))"
proof -
  have h: "\<forall>t \<in> set (namedTypes exampleRenderer).
             isUnion t \<or> (isClass t \<and> propertyNames exampleRenderer t \<noteq> None)"
    by code_simp
  have "map_sum id (\<lambda>out. filter isClassCall (calls out))
      (forEachNamedType exampleRenderer Leading False recordClass recordUnion)
     = Inr [ClassCall (ClassType 0) (Some (FixedName 0 ''Person''))
              [(''age'', SimpleName 2 ''age'' PropertyNamer),
               (''home'', SimpleName 4 ''home'' PropertyNamer),
               (''name'', SimpleName 1 ''name'' PropertyNamer),
               (''nick'', SimpleName 5 ''nick'' PropertyNamer),
               (''value'', SimpleName 3 ''value'' PropertyNamer)],
            ClassCall (ClassType 1) (Some (SimpleName 6 ''Address'' NamedTypeNamer))
              [(''street'', SimpleName 7 ''street'' PropertyNamer)]]"
    by code_simp
  with classes_leavesFirst_reversed [OF h, of Leading Interposing] show ?thesis by blast
qed

text \<open>
  C8. The blank-line policy decides where blank lines are emitted and nothing else: what
  the callbacks of \<open>forEachTopLevel\<close>, \<open>forEachClass\<close>, \<open>forEachUnion\<close> and
  \<open>forEachNamedType\<close> emit, blank lines left out, and whether a fault ends the iteration,
  are the same under any two policies. For the callbacks that record their arguments
  this is the sequence of the arguments of the calls.
\<close>

theorem blankLinePolicy_only_separators:
  "map_sum id calls (forEachTopLevel r p1 ft) = map_sum id calls (forEachTopLevel r p2 ft)
   \<and> map_sum id calls (forEachClass r p1 fc) = map_sum id calls (forEachClass r p2 fc)
   \<and> map_sum id calls (forEachUnion r p1 fu) = map_sum id calls (forEachUnion r p2 fu)
   \<and> map_sum id calls (forEachNamedType r p1 leavesFirst fc fu)
       = map_sum id calls (forEachNamedType r p2 leavesFirst fc fu)"
  unfolding forEachTopLevel_def forEachClass_def forEachUnion_def forEachNamedType_def
    forEachWithBlankLines_def Let_def
  by (intro conjI calls_forEachFrom_policy)


theorem blankLinePolicy_only_separators_witness:
  "map_sum id calls (forEachNamedType exampleRenderer NoBlankLines True recordClass recordUnion)
     = map_sum id calls (forEachNamedType exampleRenderer LeadingAndInterposing True recordClass recordUnion)
   \<and> forEachUnion exampleRenderer NoBlankLines recordUnion
       = Inr [Emit (UnionCall valueUnion (Some (SimpleName 8 ''value'' NamedTypeNamer)))]
   \<and> forEachUnion exampleRenderer Leading recordUnion
       = Inr [EmitNewline, Emit (UnionCall valueUnion (Some (SimpleName 8 ''value'' NamedTypeNamer)))]"
proof -
  have "forEachUnion exampleRenderer NoBlankLines recordUnion
       = Inr [Emit (UnionCall valueUnion (Some (SimpleName 8 ''value'' NamedTypeNamer)))]"
    by code_simp
  moreover have "forEachUnion exampleRenderer Leading recordUnion
       = Inr [EmitNewline, Emit (UnionCall valueUnion (Some (SimpleName 8 ''value'' NamedTypeNamer)))]"
    by code_simp
  ultimately show ?thesis
    using blankLinePolicy_only_separators
      [of exampleRenderer NoBlankLines recordTopLevel LeadingAndInterposing recordClass recordUnion True]
    by blast
qed

section \<open>Property names in the order of their resolved names\<close>

lemma forEachFrom_calls:
  assumes "forEachFrom b ts p em = Inr out" and "x \<in> set (calls out)"
  shows "\<exists>t \<in> set ts. \<exists>o'. em t = Inr o' \<and> x \<in> set (calls o')"
  using assms
proof (induction ts arbitrary: b out)
  case Nil
  then show ?case by simp
next
  case (Cons t ts)
  from Cons.prems(1) obtain o' rest where o: "em t = Inr o'"
    and rest: "forEachFrom False ts p em = Inr rest"
    and out: "out = (if blankLineBefore p b then [EmitNewline] else []) @ o' @ rest"
    by (auto split: sum.splits)
  from Cons.prems(2) out have "x \<in> set (calls o') \<or> x \<in> set (calls rest)"
    by (auto split: if_splits)
  then show ?case
  proof
    assume "x \<in> set (calls o')"
    with o show ?thesis by auto
  next
    assume "x \<in> set (calls rest)"
    from Cons.IH [OF rest this] show ?thesis by auto
  qed
qed

lemma callForClass_record:
  assumes "callForClass r t recordClass = Inr o'" and "ClassCall c n ps \<in> set (calls o')"
  shows "\<exists>pn. propertyNames r c = Some pn \<and> mset ps = mset pn
            \<and> sorted (map (\<lambda>(k, n). names r n) ps)"
  using assms by (auto simp: callForClass_def recordClass_def split: option.splits)

text \<open>
  C9. \<open>callForClass\<close> passes the property names of the class to the callback sorted by
  their resolved names in ascending order: the same entries as in \<open>_propertyNames\<close>, in
  the order of the strings \<open>names\<close> gives them. So do \<open>forEachClass\<close> and
  \<open>forEachNamedType\<close>, which call classes through \<open>callForClass\<close>.
\<close>

theorem callForClass_sorted_by_resolved_name:
  "(\<forall>pn. propertyNames r c = Some pn \<longrightarrow>
       (\<exists>ps. callForClass r c f = f c (classAndUnionNames r c) ps
            \<and> sorted (map (\<lambda>(k, n). names r n) ps) \<and> mset ps = mset pn))
   \<and> (\<forall>out c' n ps. forEachClass r p recordClass = Inr out \<and> ClassCall c' n ps \<in> set (calls out) \<longrightarrow>
         sorted (map (\<lambda>(k, n). names r n) ps)
         \<and> (\<exists>pn. propertyNames r c' = Some pn \<and> mset ps = mset pn))
   \<and> (\<forall>out c' n ps. forEachNamedType r p leavesFirst recordClass recordUnion = Inr out
                      \<and> ClassCall c' n ps \<in> set (calls out) \<longrightarrow>
         sorted (map (\<lambda>(k, n). names r n) ps)
         \<and> (\<exists>pn. propertyNames r c' = Some pn \<and> mset ps = mset pn))"
proof -
  have a: "\<exists>ps. callForClass r c f = f c (classAndUnionNames r c) ps
            \<and> sorted (map (\<lambda>(k, n). names r n) ps) \<and> mset ps = mset pn"
    if "propertyNames r c = Some pn" for pn
    using that by (auto simp: callForClass_def)
  have b: "sorted (map (\<lambda>(k, n). names r n) ps) \<and> (\<exists>pn. propertyNames r c' = Some pn \<and> mset ps = mset pn)"
    if "forEachClass r p recordClass = Inr out" and "ClassCall c' n ps \<in> set (calls out)"
    for out c' n ps
  proof -
    from that obtain t o' where "callForClass r t recordClass = Inr o'"
      and "ClassCall c' n ps \<in> set (calls o')"
      unfolding forEachClass_def forEachWithBlankLines_def
      by (blast dest: forEachFrom_calls)
    from callForClass_record [OF this] show ?thesis by blast
  qed
  have c: "sorted (map (\<lambda>(k, n). names r n) ps) \<and> (\<exists>pn. propertyNames r c' = Some pn \<and> mset ps = mset pn)"
    if "forEachNamedType r p leavesFirst recordClass recordUnion = Inr out"
      and "ClassCall c' n ps \<in> set (calls out)"
    for out c' n ps
  proof -
    from that obtain t o' where
      o: "(if isClass t then callForClass r t recordClass
           else if isUnion t then callForUnion r t recordUnion
           else Inl NeitherClassNorUnion) = Inr o'" and c: "ClassCall c' n ps \<in> set (calls o')"
      unfolding forEachNamedType_def forEachWithBlankLines_def Let_def
      by (blast dest: forEachFrom_calls)
    have "callForClass r t recordClass = Inr o'"
    proof (cases "isClass t")
      case True
      with o show ?thesis by simp
    next
      case False
      with o c show ?thesis
        by (auto simp: callForUnion_def recordUnion_def split: if_splits)
    qed
    from callForClass_record [OF this c] show ?thesis by blast
  qed
  from a b c show ?thesis by blast
qed

theorem callForClass_sorted_by_resolved_name_witness:
  "propertyNames exampleRenderer (ClassType 0)
     = Some [(''name'', SimpleName 1 ''name'' PropertyNamer),
             (''age'', SimpleName 2 ''age'' PropertyNamer),
             (''value'', SimpleName 3 ''value'' PropertyNamer),
             (''home'', SimpleName 4 ''home'' PropertyNamer),
             (''nick'', SimpleName 5 ''nick'' PropertyNamer)]
   \<and> callForClass exampleRenderer (ClassType 0) recordClass
     = Inr [Emit (ClassCall (ClassType 0) (Some (FixedName 0 ''Person''))
              [(''age'', SimpleName 2 ''age'' PropertyNamer),
               (''home'', SimpleName 4 ''home'' PropertyNamer),
               (''name'', SimpleName 1 ''name'' PropertyNamer),
               (''nick'', SimpleName 5 ''nick'' PropertyNamer),
               (''value'', SimpleName 3 ''value'' PropertyNamer)])]
   \<and> (\<exists>ps. callForClass exampleRenderer (ClassType 0) recordClass
              = recordClass (ClassType 0) (classAndUnionNames exampleRenderer (ClassType 0)) ps
          \<and> sorted (map (\<lambda>(k, n). names exampleRenderer n) ps)
          \<and> mset ps = mset [(''name'', SimpleName 1 ''name'' PropertyNamer),
                             (''age'', SimpleName 2 ''age'' PropertyNamer),
                             (''value'', SimpleName 3 ''value'' PropertyNamer),
                             (''home'', SimpleName 4 ''home'' PropertyNamer),
                             (''nick'', SimpleName 5 ''nick'' PropertyNamer)])"
proof -
  have pn: "propertyNames exampleRenderer (ClassType 0)
     = Some [(''name'', SimpleName 1 ''name'' PropertyNamer),
             (''age'', SimpleName 2 ''age'' PropertyNamer),
             (''value'', SimpleName 3 ''value'' PropertyNamer),
             (''home'', SimpleName 4 ''home'' PropertyNamer),
             (''nick'', SimpleName 5 ''nick'' PropertyNamer)]"
    by code_simp
  have "callForClass exampleRenderer (ClassType 0) recordClass
     = Inr [Emit (ClassCall (ClassType 0) (Some (FixedName 0 ''Person''))
              [(''age'', SimpleName 2 ''age'' PropertyNamer),
               (''home'', SimpleName 4 ''home'' PropertyNamer),
               (''name'', SimpleName 1 ''name'' PropertyNamer),
               (''nick'', SimpleName 5 ''nick'' PropertyNamer),
               (''value'', SimpleName 3 ''value'' PropertyNamer)])]"
    by code_simp
  with pn callForClass_sorted_by_resolved_name
    [of exampleRenderer "ClassType 0" recordClass NoBlankLines False]
  show ?thesis by blast
qed

section \<open>The children of a type in the dependency traversal\<close>





section \<open>The field name of a map in a union\<close>







end
